theory Spec2Isabelle
  imports Complex_Main "HOL-Library.AList" "HOL-Library.Multiset"
begin

section \<open>Values, truthiness and property access\<close>

text \<open>
  The storage service is generic in the stored value (\<^verbatim>\<open>any\<close> / \<^verbatim>\<open>T\<close>).
  The values of the model are the JSON values, plus BigInt as a value that
  \<^verbatim>\<open>JSON.stringify\<close> refuses. Numbers are integers (counts, millisecond
  timestamps, minutes); an object is the list of its own properties in
  enumeration order; \<^verbatim>\<open>undefined\<close> is the \<open>None\<close> of an option where
  the source can meet it (an omitted argument, a missing property).
\<close>

datatype jsval =
    JNull
  | JBool bool
  | JNum int
  | JBigInt int
  | JStr string
  | JArr "jsval list"
  | JObj "(string \<times> jsval) list"

datatype error = StorageError | TypeError | SyntaxError

text \<open>Truthiness, as used by \<^verbatim>\<open>||\<close>, \<^verbatim>\<open>? :\<close> and \<^verbatim>\<open>if\<close>.\<close>

fun truthy :: "jsval \<Rightarrow> bool" where
  "truthy JNull = False"
| "truthy (JBool b) = b"
| "truthy (JNum n) = (n \<noteq> 0)"
| "truthy (JBigInt n) = (n \<noteq> 0)"
| "truthy (JStr s) = (s \<noteq> [])"
| "truthy (JArr xs) = True"
| "truthy (JObj ps) = True"

text \<open>
  \<^verbatim>\<open>v.k\<close> for the data properties the services read (\<^verbatim>\<open>id\<close>,
  \<^verbatim>\<open>userId\<close>, \<^verbatim>\<open>status\<close>, \<^verbatim>\<open>date\<close>, \<^verbatim>\<open>createdAt\<close>,
  \<^verbatim>\<open>data\<close> and the four snapshot fields): a TypeError on \<^verbatim>\<open>null\<close>,
  the own property of an object, \<^verbatim>\<open>undefined\<close> on everything else.
\<close>

fun get_prop :: "jsval \<Rightarrow> string \<Rightarrow> error + jsval option" where
  "get_prop JNull k = Inl TypeError"
| "get_prop (JObj ps) k = Inr (map_of ps k)"
| "get_prop v k = Inr None"

text \<open>\<^verbatim>\<open>a || b\<close> where \<^verbatim>\<open>a\<close> may be \<^verbatim>\<open>undefined\<close>.\<close>

fun or_else :: "jsval option \<Rightarrow> jsval \<Rightarrow> jsval" where
  "or_else None d = d"
| "or_else (Some v) d = (if truthy v then v else d)"

text \<open>\<^verbatim>\<open>{...a, ...b}\<close> on property lists: the properties of \<^verbatim>\<open>b\<close> overwrite in place or are appended.\<close>

definition spread :: "(string \<times> jsval) list \<Rightarrow> (string \<times> jsval) list \<Rightarrow> (string \<times> jsval) list" where
  "spread a b = fold (\<lambda>(k, v). AList.update k v) b a"

section \<open>The JSON codec of the platform\<close>

text \<open>
  \<^verbatim>\<open>JSON.stringify\<close> and \<^verbatim>\<open>JSON.parse\<close> are built-ins; the model writes
  them out for the values above. \<open>JSON_stringify\<close> produces the compact text and
  throws a TypeError on a BigInt. \<open>JSON_parse\<close> is a recursive-descent parser
  bounded by the length of its input; it throws a SyntaxError on any other text.
\<close>

definition digit_char :: "nat \<Rightarrow> char" where
  "digit_char d = char_of (48 + d)"

fun digits_of :: "nat \<Rightarrow> string" where
  "digits_of n = (if n < 10 then [digit_char n] else digits_of (n div 10) @ [digit_char (n mod 10)])"

declare digits_of.simps [simp del]

definition show_int :: "int \<Rightarrow> string" where
  "show_int i = (if i < 0 then CHR ''-'' # digits_of (nat (- i)) else digits_of (nat i))"

definition hex_char :: "nat \<Rightarrow> char" where
  "hex_char d = (if d < 10 then char_of (48 + d) else char_of (87 + d))"

definition escape_char :: "char \<Rightarrow> string" where
  "escape_char c =
     (if c = CHR 0x22 then [CHR 0x5C, CHR 0x22]
      else if c = CHR 0x5C then [CHR 0x5C, CHR 0x5C]
      else if c = CHR 0x08 then [CHR 0x5C, CHR ''b'']
      else if c = CHR 0x0C then [CHR 0x5C, CHR ''f'']
      else if c = CHR 0x0A then [CHR 0x5C, CHR ''n'']
      else if c = CHR 0x0D then [CHR 0x5C, CHR ''r'']
      else if c = CHR 0x09 then [CHR 0x5C, CHR ''t'']
      else if of_char c < (32::nat)
        then [CHR 0x5C, CHR ''u'', CHR ''0'', CHR ''0'',
              hex_char (of_char c div 16), hex_char (of_char c mod 16)]
      else [c])"

definition quote :: "string \<Rightarrow> string" where
  "quote s = CHR 0x22 # concat (map escape_char s) @ [CHR 0x22]"

fun join_comma :: "string list \<Rightarrow> string" where
  "join_comma [] = []"
| "join_comma [x] = x"
| "join_comma (x # y # ys) = x @ CHR '','' # join_comma (y # ys)"

fun sequence :: "(error + 'a) list \<Rightarrow> error + 'a list" where
  "sequence [] = Inr []"
| "sequence (Inl e # rs) = Inl e"
| "sequence (Inr x # rs) = (case sequence rs of Inl e \<Rightarrow> Inl e | Inr xs \<Rightarrow> Inr (x # xs))"

fun JSON_stringify :: "jsval \<Rightarrow> error + string" where
  "JSON_stringify JNull = Inr ''null''"
| "JSON_stringify (JBool b) = Inr (if b then ''true'' else ''false'')"
| "JSON_stringify (JNum n) = Inr (show_int n)"
| "JSON_stringify (JBigInt n) = Inl TypeError"
| "JSON_stringify (JStr s) = Inr (quote s)"
| "JSON_stringify (JArr xs) =
     (case sequence (map JSON_stringify xs) of
        Inl e \<Rightarrow> Inl e
      | Inr ts \<Rightarrow> Inr (CHR ''['' # join_comma ts @ '']''))"
| "JSON_stringify (JObj ps) =
     (case sequence (map (\<lambda>(k, v). case JSON_stringify v of
                                      Inl e \<Rightarrow> Inl e
                                    | Inr t \<Rightarrow> Inr (quote k @ CHR '':'' # t)) ps) of
        Inl e \<Rightarrow> Inl e
      | Inr ts \<Rightarrow> Inr (CHR ''{'' # join_comma ts @ ''}''))"


text \<open>The parser. Strings are byte strings: \<^verbatim>\<open>\uXXXX\<close> is read for code points below 256.\<close>

definition is_ws :: "char \<Rightarrow> bool" where
  "is_ws c = (c = CHR '' '' \<or> c = CHR 0x0A \<or> c = CHR 0x0D \<or> c = CHR 0x09)"

definition skip_ws :: "string \<Rightarrow> string" where
  "skip_ws s = dropWhile is_ws s"

definition is_digit :: "char \<Rightarrow> bool" where
  "is_digit c = (48 \<le> (of_char c :: nat) \<and> (of_char c :: nat) \<le> 57)"

definition digit_val :: "char \<Rightarrow> nat" where
  "digit_val c = of_char c - 48"

definition hex_val :: "char \<Rightarrow> nat option" where
  "hex_val c =
     (let n = (of_char c :: nat) in
      if 48 \<le> n \<and> n \<le> 57 then Some (n - 48)
      else if 97 \<le> n \<and> n \<le> 102 then Some (n - 87)
      else if 65 \<le> n \<and> n \<le> 70 then Some (n - 55)
      else None)"

definition hex4 :: "char \<Rightarrow> char \<Rightarrow> char \<Rightarrow> char \<Rightarrow> char option" where
  "hex4 a b c d =
     (case (hex_val a, hex_val b, hex_val c, hex_val d) of
        (Some x, Some y, Some z, Some w) \<Rightarrow>
          if x = 0 \<and> y = 0 then Some (char_of (16 * z + w)) else None
      | _ \<Rightarrow> None)"

definition unescape :: "char \<Rightarrow> char option" where
  "unescape e =
     (if e = CHR 0x22 then Some (CHR 0x22)
      else if e = CHR 0x5C then Some (CHR 0x5C)
      else if e = CHR ''/'' then Some (CHR ''/'')
      else if e = CHR ''b'' then Some (CHR 0x08)
      else if e = CHR ''f'' then Some (CHR 0x0C)
      else if e = CHR ''n'' then Some (CHR 0x0A)
      else if e = CHR ''r'' then Some (CHR 0x0D)
      else if e = CHR ''t'' then Some (CHR 0x09)
      else None)"

text \<open>The characters of a string literal after its opening quote, up to the closing one.\<close>

fun parse_chars :: "string \<Rightarrow> (string \<times> string) option" where
  "parse_chars [] = None"
| "parse_chars (c # r) =
     (if c = CHR 0x22 then Some ([], r)
      else if c = CHR 0x5C then
        (case r of
           [] \<Rightarrow> None
         | e # r1 \<Rightarrow>
             if e = CHR ''u'' then
               (case r1 of
                  a # b # x # y # r2 \<Rightarrow>
                    (case hex4 a b x y of
                       None \<Rightarrow> None
                     | Some ch \<Rightarrow>
                         (case parse_chars r2 of
                            None \<Rightarrow> None
                          | Some (s, t) \<Rightarrow> Some (ch # s, t)))
                | _ \<Rightarrow> None)
             else
               (case unescape e of
                  None \<Rightarrow> None
                | Some ch \<Rightarrow>
                    (case parse_chars r1 of
                       None \<Rightarrow> None
                     | Some (s, t) \<Rightarrow> Some (ch # s, t))))
      else if of_char c < (32::nat) then None
      else (case parse_chars r of
              None \<Rightarrow> None
            | Some (s, t) \<Rightarrow> Some (c # s, t)))"

definition digits_val :: "string \<Rightarrow> nat" where
  "digits_val ds = foldl (\<lambda>a c. 10 * a + digit_val c) 0 ds"

text \<open>An integer literal; a fraction or an exponent is outside the model's numbers.\<close>

definition parse_nat :: "string \<Rightarrow> (nat \<times> string) option" where
  "parse_nat s =
     (let ds = takeWhile is_digit s; r = dropWhile is_digit s in
      if ds = [] then None
      else if hd ds = CHR ''0'' \<and> tl ds \<noteq> [] then None
      else if r \<noteq> [] \<and> (hd r = CHR ''.'' \<or> hd r = CHR ''e'' \<or> hd r = CHR ''E'') then None
      else Some (digits_val ds, r))"

definition parse_number :: "string \<Rightarrow> (jsval \<times> string) option" where
  "parse_number s =
     (case s of
        [] \<Rightarrow> None
      | c # r \<Rightarrow>
          if c = CHR ''-'' then
            (case parse_nat r of None \<Rightarrow> None | Some (n, t) \<Rightarrow> Some (JNum (- int n), t))
          else
            (case parse_nat s of None \<Rightarrow> None | Some (n, t) \<Rightarrow> Some (JNum (int n), t)))"

fun strip_prefix :: "string \<Rightarrow> string \<Rightarrow> string option" where
  "strip_prefix [] s = Some s"
| "strip_prefix (p # ps) [] = None"
| "strip_prefix (p # ps) (c # s) = (if p = c then strip_prefix ps s else None)"

definition literal :: "string \<Rightarrow> jsval \<Rightarrow> string \<Rightarrow> (jsval \<times> string) option" where
  "literal p v s = (case strip_prefix p s of None \<Rightarrow> None | Some r \<Rightarrow> Some (v, r))"

text \<open>A repeated key of an object text keeps its first position and its last value.\<close>

definition object_of :: "(string \<times> jsval) list \<Rightarrow> jsval" where
  "object_of ms = JObj (spread [] ms)"

fun parse_value :: "nat \<Rightarrow> string \<Rightarrow> (jsval \<times> string) option"
  and parse_elements :: "nat \<Rightarrow> string \<Rightarrow> (jsval list \<times> string) option"
  and parse_members :: "nat \<Rightarrow> string \<Rightarrow> ((string \<times> jsval) list \<times> string) option"
where
  "parse_value 0 s = None"
| "parse_value (Suc n) s =
     (case skip_ws s of
        [] \<Rightarrow> None
      | c # r \<Rightarrow>
          if c = CHR ''n'' then literal ''ull'' JNull r
          else if c = CHR ''t'' then literal ''rue'' (JBool True) r
          else if c = CHR ''f'' then literal ''alse'' (JBool False) r
          else if c = CHR 0x22 then
            (case parse_chars r of None \<Rightarrow> None | Some (str, t) \<Rightarrow> Some (JStr str, t))
          else if c = CHR ''['' then
            (case skip_ws r of
               [] \<Rightarrow> None
             | d # t \<Rightarrow>
                 if d = CHR '']'' then Some (JArr [], t)
                 else (case parse_elements n (d # t) of
                         None \<Rightarrow> None
                       | Some (vs, u) \<Rightarrow> Some (JArr vs, u)))
          else if c = CHR ''{'' then
            (case skip_ws r of
               [] \<Rightarrow> None
             | d # t \<Rightarrow>
                 if d = CHR ''}'' then Some (JObj [], t)
                 else (case parse_members n (d # t) of
                         None \<Rightarrow> None
                       | Some (ms, u) \<Rightarrow> Some (object_of ms, u)))
          else parse_number (c # r))"
| "parse_elements 0 s = None"
| "parse_elements (Suc n) s =
     (case parse_value n s of
        None \<Rightarrow> None
      | Some (v, r) \<Rightarrow>
          (case skip_ws r of
             [] \<Rightarrow> None
           | c # t \<Rightarrow>
               if c = CHR '','' then
                 (case parse_elements n t of
                    None \<Rightarrow> None
                  | Some (vs, u) \<Rightarrow> Some (v # vs, u))
               else if c = CHR '']'' then Some ([v], t)
               else None))"
| "parse_members 0 s = None"
| "parse_members (Suc n) s =
     (case skip_ws s of
        [] \<Rightarrow> None
      | q # r \<Rightarrow>
          if q \<noteq> CHR 0x22 then None
          else
            (case parse_chars r of
               None \<Rightarrow> None
             | Some (k, r1) \<Rightarrow>
                 (case skip_ws r1 of
                    [] \<Rightarrow> None
                  | c # r2 \<Rightarrow>
                      if c \<noteq> CHR '':'' then None
                      else
                        (case parse_value n r2 of
                           None \<Rightarrow> None
                         | Some (v, r3) \<Rightarrow>
                             (case skip_ws r3 of
                                [] \<Rightarrow> None
                              | d # r4 \<Rightarrow>
                                  if d = CHR '','' then
                                    (case parse_members n r4 of
                                       None \<Rightarrow> None
                                     | Some (ms, u) \<Rightarrow> Some ((k, v) # ms, u))
                                  else if d = CHR ''}'' then Some ([(k, v)], r4)
                                  else None)))))"

definition JSON_parse :: "string \<Rightarrow> error + jsval" where
  "JSON_parse s =
     (case parse_value (2 * length s + 2) s of
        None \<Rightarrow> Inl SyntaxError
      | Some (v, r) \<Rightarrow> if skip_ws r = [] then Inr v else Inl SyntaxError)"


section \<open>The storage service (services/storage.ts)\<close>

text \<open>
  The state is the module-level cache and the AsyncStorage backend. The backend is a
  map from keys to texts; whether one of its calls rejects is decided per key by the
  environment (\<open>read_fails\<close>, \<open>write_fails\<close>, \<open>remove_fails\<close>), and a call
  that rejects changes nothing. \<^verbatim>\<open>Date.now()\<close> is the argument \<open>now\<close>, in
  milliseconds, read once per call of the service; a TTL is a whole number of minutes.
  Values are immutable: none of the operations modelled changes a stored value in
  place. The \<^verbatim>\<open>console.error\<close> lines are not modelled.
\<close>

record cache_item =
  data :: jsval
  timestamp :: int
  expiry :: "int option"

record storage =
  cache :: "string \<rightharpoonup> cache_item"
  disk :: "string \<rightharpoonup> string"
  read_fails :: "string \<Rightarrow> bool"
  write_fails :: "string \<Rightarrow> bool"
  remove_fails :: "string \<Rightarrow> bool"

definition APPOINTMENTS :: string where "APPOINTMENTS = ''@MedicalApp:appointments''"
definition NOTIFICATIONS :: string where "NOTIFICATIONS = ''@MedicalApp:notifications''"
definition REGISTERED_USERS :: string where "REGISTERED_USERS = ''@MedicalApp:registeredUsers''"
definition APP_SETTINGS :: string where "APP_SETTINGS = ''@MedicalApp:settings''"

definition AsyncStorage_getItem :: "string \<Rightarrow> storage \<Rightarrow> error + string option" where
  "AsyncStorage_getItem key st = (if read_fails st key then Inl StorageError else Inr (disk st key))"

definition AsyncStorage_setItem :: "string \<Rightarrow> string \<Rightarrow> storage \<Rightarrow> error + storage" where
  "AsyncStorage_setItem key text st =
     (if write_fails st key then Inl StorageError
      else Inr (st\<lparr>disk := (disk st)(key \<mapsto> text)\<rparr>))"

definition AsyncStorage_removeItem :: "string \<Rightarrow> storage \<Rightarrow> error + storage" where
  "AsyncStorage_removeItem key st =
     (if remove_fails st key then Inl StorageError
      else Inr (st\<lparr>disk := (disk st)(key := None)\<rparr>))"

text \<open>
  \<^verbatim>\<open>expiryMinutes ? Date.now() + (expiryMinutes * 60 * 1000) : undefined\<close>:
  an omitted or zero TTL gives no expiry.
\<close>

definition expiry_of :: "int option \<Rightarrow> int \<Rightarrow> int option" where
  "expiry_of expiryMinutes now =
     (case expiryMinutes of
        None \<Rightarrow> None
      | Some m \<Rightarrow> if m \<noteq> 0 then Some (now + m * 60 * 1000) else None)"

text \<open>
  \<open>setItem\<close>: the \<^verbatim>\<open>catch\<close> logs and rethrows, so an error of the serializer or
  of the backend is the result, and the cache is written only after both succeeded.
\<close>

definition setItem :: "string \<Rightarrow> jsval \<Rightarrow> int option \<Rightarrow> int \<Rightarrow> storage \<Rightarrow> (error + unit) \<times> storage" where
  "setItem key val expiryMinutes now st =
     (case JSON_stringify val of
        Inl e \<Rightarrow> (Inl e, st)
      | Inr serializedValue \<Rightarrow>
          (case AsyncStorage_setItem key serializedValue st of
             Inl e \<Rightarrow> (Inl e, st)
           | Inr st1 \<Rightarrow>
               (Inr (),
                st1\<lparr>cache := (cache st1)(key \<mapsto>
                  \<lparr>data = val, timestamp = now, expiry = expiry_of expiryMinutes now\<rparr>)\<rparr>)))"

text \<open>\<^verbatim>\<open>!cached.expiry || cached.expiry > Date.now()\<close>\<close>

definition unexpired :: "cache_item \<Rightarrow> int \<Rightarrow> bool" where
  "unexpired cached now =
     (case expiry cached of None \<Rightarrow> True | Some e \<Rightarrow> e = 0 \<or> e > now)"

text \<open>\<^verbatim>\<open>defaultValue || null\<close>\<close>

definition default_or_null :: "jsval option \<Rightarrow> jsval" where
  "default_or_null defaultValue = or_else defaultValue JNull"

text \<open>Steps 2 to 4 of \<open>getItem\<close>: the read of the backend, inside the \<^verbatim>\<open>try\<close>.\<close>

definition getItem_load :: "string \<Rightarrow> jsval option \<Rightarrow> int \<Rightarrow> storage \<Rightarrow> (error + jsval) \<times> storage" where
  "getItem_load key defaultValue now st =
     (case AsyncStorage_getItem key st of
        Inl e \<Rightarrow> (Inl e, st)
      | Inr None \<Rightarrow> (Inr (default_or_null defaultValue), st)
      | Inr (Some stored) \<Rightarrow>
          if stored = [] then (Inr (default_or_null defaultValue), st)
          else
            (case JSON_parse stored of
               Inl e \<Rightarrow> (Inl e, st)
             | Inr parsed \<Rightarrow>
                 (Inr parsed,
                  st\<lparr>cache := (cache st)(key \<mapsto>
                    \<lparr>data = parsed, timestamp = now, expiry = None\<rparr>)\<rparr>)))"

text \<open>The body of the \<^verbatim>\<open>try\<close> of \<open>getItem\<close>.\<close>

definition getItem_try :: "string \<Rightarrow> jsval option \<Rightarrow> int \<Rightarrow> storage \<Rightarrow> (error + jsval) \<times> storage" where
  "getItem_try key defaultValue now st =
     (case cache st key of
        Some cached \<Rightarrow>
          if unexpired cached now then (Inr (data cached), st)
          else getItem_load key defaultValue now (st\<lparr>cache := (cache st)(key := None)\<rparr>)
      | None \<Rightarrow> getItem_load key defaultValue now st)"

text \<open>\<open>getItem\<close>: the \<^verbatim>\<open>catch\<close> turns an error of the body into \<^verbatim>\<open>defaultValue || null\<close>.\<close>

definition getItem :: "string \<Rightarrow> jsval option \<Rightarrow> int \<Rightarrow> storage \<Rightarrow> (error + jsval) \<times> storage" where
  "getItem key defaultValue now st =
     (case getItem_try key defaultValue now st of
        (Inl e, st1) \<Rightarrow> (Inr (default_or_null defaultValue), st1)
      | (Inr v, st1) \<Rightarrow> (Inr v, st1))"

definition removeItem :: "string \<Rightarrow> storage \<Rightarrow> (error + unit) \<times> storage" where
  "removeItem key st =
     (case AsyncStorage_removeItem key st of
        Inl e \<Rightarrow> (Inl e, st)
      | Inr st1 \<Rightarrow> (Inr (), st1\<lparr>cache := (cache st1)(key := None)\<rparr>))"

subsection \<open>Appointments\<close>

definition getAppointments :: "int \<Rightarrow> storage \<Rightarrow> (error + jsval) \<times> storage" where
  "getAppointments now st = getItem APPOINTMENTS (Some (JArr [])) now st"

definition saveAppointments :: "jsval \<Rightarrow> int \<Rightarrow> storage \<Rightarrow> (error + unit) \<times> storage" where
  "saveAppointments appointments now st = setItem APPOINTMENTS appointments None now st"

text \<open>\<^verbatim>\<open>xs.map(f)\<close> where \<^verbatim>\<open>f\<close> may throw; a value that is no array has no \<^verbatim>\<open>map\<close>.\<close>

definition js_map :: "(jsval \<Rightarrow> error + jsval) \<Rightarrow> jsval \<Rightarrow> error + jsval" where
  "js_map f v =
     (case v of
        JArr xs \<Rightarrow> (case sequence (map f xs) of Inl e \<Rightarrow> Inl e | Inr ys \<Rightarrow> Inr (JArr ys))
      | _ \<Rightarrow> Inl TypeError)"

definition own_props :: "jsval \<Rightarrow> (string \<times> jsval) list" where
  "own_props v = (case v of JObj ps \<Rightarrow> ps | _ \<Rightarrow> [])"

text \<open>
  \<^verbatim>\<open>apt => apt.id === appointmentId ? { ...apt, ...updates } : apt\<close>.
  Only an object can have the string as its \<^verbatim>\<open>id\<close>, so only an object is spread.
\<close>

definition update_if_match :: "string \<Rightarrow> (string \<times> jsval) list \<Rightarrow> jsval \<Rightarrow> error + jsval" where
  "update_if_match appointmentId updates apt =
     (case get_prop apt ''id'' of
        Inl e \<Rightarrow> Inl e
      | Inr i \<Rightarrow>
          if i = Some (JStr appointmentId) then Inr (JObj (spread (own_props apt) updates))
          else Inr apt)"

definition updateAppointment :: "string \<Rightarrow> (string \<times> jsval) list \<Rightarrow> int \<Rightarrow> storage \<Rightarrow> (error + unit) \<times> storage" where
  "updateAppointment appointmentId updates now st =
     (case getAppointments now st of
        (Inl e, st1) \<Rightarrow> (Inl e, st1)
      | (Inr appointments, st1) \<Rightarrow>
          (case js_map (update_if_match appointmentId updates) appointments of
             Inl e \<Rightarrow> (Inl e, st1)
           | Inr updatedAppointments \<Rightarrow> saveAppointments updatedAppointments now st1))"

subsection \<open>Backup and restore\<close>

text \<open>\<^verbatim>\<open>await\<close>: the next step runs on the state the previous one left, and an error ends the call.\<close>

definition await :: "(storage \<Rightarrow> (error + 'a) \<times> storage) \<Rightarrow> ('a \<Rightarrow> storage \<Rightarrow> (error + 'b) \<times> storage)
    \<Rightarrow> storage \<Rightarrow> (error + 'b) \<times> storage" where
  "await m f st = (case m st of (Inl e, st1) \<Rightarrow> (Inl e, st1) | (Inr x, st1) \<Rightarrow> f x st1)"

definition snapshot :: "string \<Rightarrow> jsval \<Rightarrow> jsval \<Rightarrow> jsval \<Rightarrow> jsval \<Rightarrow> jsval" where
  "snapshot stamp a n u s =
     JObj [(''timestamp'', JStr stamp),
           (''data'', JObj [(''appointments'', a), (''notifications'', n),
                            (''registeredUsers'', u), (''settings'', s)])]"

text \<open>\<open>createBackup\<close>; \<open>stamp\<close> is \<^verbatim>\<open>new Date().toISOString()\<close>.\<close>

definition createBackup :: "string \<Rightarrow> int \<Rightarrow> storage \<Rightarrow> (error + string) \<times> storage" where
  "createBackup stamp now =
     await (getItem APPOINTMENTS (Some (JArr [])) now) (\<lambda>a.
     await (getItem NOTIFICATIONS (Some (JArr [])) now) (\<lambda>n.
     await (getItem REGISTERED_USERS (Some (JArr [])) now) (\<lambda>u.
     await (getItem APP_SETTINGS (Some (JObj [])) now) (\<lambda>s.
     (\<lambda>st. (JSON_stringify (snapshot stamp a n u s), st))))))"

text \<open>\<^verbatim>\<open>await this.setItem(KEY, backup.data.field || dflt)\<close>\<close>

definition restore_key :: "string \<Rightarrow> jsval \<Rightarrow> string \<Rightarrow> jsval \<Rightarrow> int \<Rightarrow> storage \<Rightarrow> (error + unit) \<times> storage" where
  "restore_key key dat field dflt now st =
     (case get_prop dat field of
        Inl e \<Rightarrow> (Inl e, st)
      | Inr v \<Rightarrow> setItem key (or_else v dflt) None now st)"

definition restoreFromBackup :: "string \<Rightarrow> int \<Rightarrow> storage \<Rightarrow> (error + unit) \<times> storage" where
  "restoreFromBackup backupString now st =
     (case JSON_parse backupString of
        Inl e \<Rightarrow> (Inl e, st)
      | Inr backup \<Rightarrow>
          (case get_prop backup ''data'' of
             Inl e \<Rightarrow> (Inl e, st)
           | Inr None \<Rightarrow> (Inr (), st)
           | Inr (Some dat) \<Rightarrow>
               if truthy dat then
                 await (restore_key APPOINTMENTS dat ''appointments'' (JArr []) now) (\<lambda>_.
                 await (restore_key NOTIFICATIONS dat ''notifications'' (JArr []) now) (\<lambda>_.
                 await (restore_key REGISTERED_USERS dat ''registeredUsers'' (JArr []) now) (\<lambda>_.
                 restore_key APP_SETTINGS dat ''settings'' (JObj []) now))) st
               else (Inr (), st)))"

text \<open>\<^verbatim>\<open>restoreFromBackup(await createBackup())\<close>\<close>

definition backup_then_restore :: "string \<Rightarrow> int \<Rightarrow> storage \<Rightarrow> (error + unit) \<times> storage" where
  "backup_then_restore stamp now = await (createBackup stamp now) (\<lambda>blob. restoreFromBackup blob now)"

subsection \<open>App settings\<close>

definition default_settings :: jsval where
  "default_settings =
     JObj [(''theme'', JStr ''light''), (''notifications'', JBool True),
           (''language'', JStr ''pt-BR''), (''autoBackup'', JBool True)]"

definition getAppSettings :: "int \<Rightarrow> storage \<Rightarrow> (error + jsval) \<times> storage" where
  "getAppSettings now st = getItem APP_SETTINGS (Some default_settings) now st"

section \<open>The notification service (services/notifications.ts)\<close>

text \<open>\<^verbatim>\<open>stored ? JSON.parse(stored) : []\<close> after \<^verbatim>\<open>AsyncStorage.getItem(key)\<close>.\<close>

definition read_collection :: "string \<Rightarrow> storage \<Rightarrow> error + jsval" where
  "read_collection key st =
     (case AsyncStorage_getItem key st of
        Inl e \<Rightarrow> Inl e
      | Inr None \<Rightarrow> Inr (JArr [])
      | Inr (Some stored) \<Rightarrow> if stored = [] then Inr (JArr []) else JSON_parse stored)"

text \<open>\<^verbatim>\<open>xs.filter(p)\<close> where \<^verbatim>\<open>p\<close> may throw; a value that is no array has no \<^verbatim>\<open>filter\<close>.\<close>

fun filter_throwing :: "('a \<Rightarrow> error + bool) \<Rightarrow> 'a list \<Rightarrow> error + 'a list" where
  "filter_throwing p [] = Inr []"
| "filter_throwing p (x # xs) =
     (case p x of
        Inl e \<Rightarrow> Inl e
      | Inr b \<Rightarrow>
          (case filter_throwing p xs of
             Inl e \<Rightarrow> Inl e
           | Inr ys \<Rightarrow> Inr (if b then x # ys else ys)))"

definition js_filter :: "(jsval \<Rightarrow> error + bool) \<Rightarrow> jsval \<Rightarrow> error + jsval list" where
  "js_filter p v = (case v of JArr xs \<Rightarrow> filter_throwing p xs | _ \<Rightarrow> Inl TypeError)"

text \<open>\<^verbatim>\<open>v.k === s\<close> for a string \<^verbatim>\<open>s\<close>.\<close>

definition prop_is :: "string \<Rightarrow> string \<Rightarrow> jsval \<Rightarrow> error + bool" where
  "prop_is k s v = (case get_prop v k of Inl e \<Rightarrow> Inl e | Inr p \<Rightarrow> Inr (p = Some (JStr s)))"

text \<open>
  \<^verbatim>\<open>Array.prototype.sort(cmp)\<close> is stable: an element goes before the first
  element that the comparator does not put before it.
\<close>

fun insert_sorted :: "('a \<Rightarrow> 'a \<Rightarrow> int) \<Rightarrow> 'a \<Rightarrow> 'a list \<Rightarrow> 'a list" where
  "insert_sorted cmp x [] = [x]"
| "insert_sorted cmp x (y # ys) =
     (if cmp x y \<le> 0 then x # y # ys else y # insert_sorted cmp x ys)"

definition js_sort :: "('a \<Rightarrow> 'a \<Rightarrow> int) \<Rightarrow> 'a list \<Rightarrow> 'a list" where
  "js_sort cmp xs = foldr (insert_sorted cmp) xs []"

text \<open>
  \<^verbatim>\<open>new Date(n.createdAt).getTime()\<close>; the date parser of the platform is the
  parameter \<open>getTime\<close>, with \<open>None\<close> for NaN. The elements compared have passed
  the filter, so none of them is \<^verbatim>\<open>null\<close>.
\<close>

definition createdAt_ms :: "(jsval option \<Rightarrow> int option) \<Rightarrow> jsval \<Rightarrow> int option" where
  "createdAt_ms getTime n =
     (case get_prop n ''createdAt'' of Inl e \<Rightarrow> None | Inr v \<Rightarrow> getTime v)"

text \<open>The comparator; \<^verbatim>\<open>sort\<close> reads a NaN result as 0.\<close>

definition newest_first :: "(jsval option \<Rightarrow> int option) \<Rightarrow> jsval \<Rightarrow> jsval \<Rightarrow> int" where
  "newest_first getTime a b =
     (case (createdAt_ms getTime b, createdAt_ms getTime a) of
        (Some tb, Some ta) \<Rightarrow> tb - ta
      | _ \<Rightarrow> 0)"

definition getNotifications_try :: "(jsval option \<Rightarrow> int option) \<Rightarrow> string \<Rightarrow> storage \<Rightarrow> error + jsval list" where
  "getNotifications_try getTime userId st =
     (case read_collection NOTIFICATIONS st of
        Inl e \<Rightarrow> Inl e
      | Inr allNotifications \<Rightarrow>
          (case js_filter (prop_is ''userId'' userId) allNotifications of
             Inl e \<Rightarrow> Inl e
           | Inr mine \<Rightarrow> Inr (js_sort (newest_first getTime) mine)))"

text \<open>\<open>getNotifications\<close>: the \<^verbatim>\<open>catch\<close> returns the empty list.\<close>

definition getNotifications :: "(jsval option \<Rightarrow> int option) \<Rightarrow> string \<Rightarrow> storage \<Rightarrow> jsval list" where
  "getNotifications getTime userId st =
     (case getNotifications_try getTime userId st of Inl e \<Rightarrow> [] | Inr ns \<Rightarrow> ns)"

section \<open>The statistics service (services/statistics.ts)\<close>

text \<open>
  The fields modelled are the counts, the month histogram and the percentages;
  \<^verbatim>\<open>totalPatients\<close>, \<^verbatim>\<open>totalDoctors\<close> and \<^verbatim>\<open>specialties\<close> are left
  out (they can throw only on a \<^verbatim>\<open>null\<close> element, on which the status filters
  have thrown before them). The percentages are rationals.
\<close>

record statistics =
  totalAppointments :: nat
  confirmedAppointments :: nat
  pendingAppointments :: nat
  cancelledAppointments :: nat
  appointmentsByMonth :: "(string \<times> nat) list"
  pct_confirmed :: rat
  pct_pending :: rat
  pct_cancelled :: rat

text \<open>\<^verbatim>\<open>s.split('/')\<close>\<close>

fun split_on :: "char \<Rightarrow> string \<Rightarrow> string list" where
  "split_on c [] = [] # []"
| "split_on c (x # xs) =
     (if x = c then [] # split_on c xs
      else (case split_on c xs of [] \<Rightarrow> [x] # [] | p # ps \<Rightarrow> (x # p) # ps))"

text \<open>An element of the destructured array inside a template literal: a missing one prints as \<^verbatim>\<open>undefined\<close>.\<close>

definition part :: "string list \<Rightarrow> nat \<Rightarrow> string" where
  "part parts i = (if i < length parts then parts ! i else ''undefined'')"

definition monthKey :: "string \<Rightarrow> string" where
  "monthKey d = (let parts = split_on CHR ''/'' d in part parts 1 @ ''/'' @ part parts 2)"

text \<open>\<^verbatim>\<open>if (m[k]) { m[k]++ } else { m[k] = 1 }\<close>\<close>

definition bump :: "string \<Rightarrow> (string \<times> nat) list \<Rightarrow> (string \<times> nat) list" where
  "bump k m =
     (case map_of m k of
        Some c \<Rightarrow> if c \<noteq> 0 then AList.update k (c + 1) m else AList.update k 1 m
      | None \<Rightarrow> AList.update k 1 m)"

text \<open>
  One round of the month loop: the histogram and the dates warned about so far.
  \<^verbatim>\<open>appointment.date.split('/')\<close> throws, inside the inner \<^verbatim>\<open>try\<close>, exactly
  when the date is no string.
\<close>

definition month_step :: "jsval \<Rightarrow> (string \<times> nat) list \<times> jsval option list \<Rightarrow> (string \<times> nat) list \<times> jsval option list" where
  "month_step appointment acc =
     (case get_prop appointment ''date'' of
        Inr (Some (JStr d)) \<Rightarrow> (bump (monthKey d) (fst acc), snd acc)
      | Inr other \<Rightarrow> (fst acc, snd acc @ [other])
      | Inl e \<Rightarrow> (fst acc, snd acc @ [None]))"

definition month_histogram :: "jsval list \<Rightarrow> (string \<times> nat) list \<times> jsval option list" where
  "month_histogram appointments = fold month_step appointments ([], [])"

definition percentage :: "nat \<Rightarrow> nat \<Rightarrow> rat" where
  "percentage n tot = (if tot > 0 then (of_nat n / of_nat tot) * 100 else 0)"

definition count_status :: "string \<Rightarrow> jsval \<Rightarrow> error + nat" where
  "count_status s appointments =
     (case js_filter (prop_is ''status'' s) appointments of
        Inl e \<Rightarrow> Inl e
      | Inr xs \<Rightarrow> Inr (length xs))"

definition elements :: "jsval \<Rightarrow> jsval list" where
  "elements v = (case v of JArr xs \<Rightarrow> xs | _ \<Rightarrow> [])"

text \<open>The aggregation of \<open>getGeneralStatistics\<close>, from the parsed collection on.\<close>

definition aggregate :: "jsval \<Rightarrow> error + statistics" where
  "aggregate appointments =
     (case count_status ''confirmed'' appointments of
        Inl e \<Rightarrow> Inl e
      | Inr confirmed \<Rightarrow>
     (case count_status ''pending'' appointments of
        Inl e \<Rightarrow> Inl e
      | Inr pending \<Rightarrow>
     (case count_status ''cancelled'' appointments of
        Inl e \<Rightarrow> Inl e
      | Inr cancelled \<Rightarrow>
          (let tot = length (elements appointments) in
           Inr \<lparr>totalAppointments = tot,
                confirmedAppointments = confirmed,
                pendingAppointments = pending,
                cancelledAppointments = cancelled,
                appointmentsByMonth = fst (month_histogram (elements appointments)),
                pct_confirmed = percentage confirmed tot,
                pct_pending = percentage pending tot,
                pct_cancelled = percentage cancelled tot\<rparr>))))"

text \<open>The dates \<^verbatim>\<open>console.warn\<close> is called with.\<close>

definition warned_dates :: "jsval \<Rightarrow> jsval option list" where
  "warned_dates appointments = snd (month_histogram (elements appointments))"

definition getGeneralStatistics :: "storage \<Rightarrow> error + statistics" where
  "getGeneralStatistics st =
     (case read_collection APPOINTMENTS st of
        Inl e \<Rightarrow> Inl e
      | Inr appointments \<Rightarrow>
          (case read_collection REGISTERED_USERS st of
             Inl e \<Rightarrow> Inl e
           | Inr registeredUsers \<Rightarrow> aggregate appointments))"

section \<open>Notions used in the statements\<close>

text \<open>The cache holds the value for the key, without expiry.\<close>

definition pinned :: "string \<Rightarrow> jsval \<Rightarrow> storage \<Rightarrow> bool" where
  "pinned key v st = (case cache st key of None \<Rightarrow> False | Some c \<Rightarrow> data c = v \<and> expiry c = None)"

text \<open>Two states agree on everything \<open>getItem\<close> reads for the key.\<close>

definition same_at :: "string \<Rightarrow> storage \<Rightarrow> storage \<Rightarrow> bool" where
  "same_at key st st' \<longleftrightarrow>
     cache st key = cache st' key \<and> disk st key = disk st' key \<and> read_fails st key = read_fails st' key"

text \<open>Both notifications have a valid \<^verbatim>\<open>createdAt\<close>, and the first is not older than the second.\<close>

definition newer_or_same :: "(jsval option \<Rightarrow> int option) \<Rightarrow> jsval \<Rightarrow> jsval \<Rightarrow> bool" where
  "newer_or_same getTime a b =
     (case (createdAt_ms getTime a, createdAt_ms getTime b) of
        (Some ta, Some tb) \<Rightarrow> tb \<le> ta
      | _ \<Rightarrow> False)"

text \<open>The cache has no entry for the key, or holds the value (expired or not).\<close>

definition cache_agrees :: "string \<Rightarrow> jsval \<Rightarrow> storage \<Rightarrow> bool" where
  "cache_agrees key v st = (case cache st key of None \<Rightarrow> True | Some c \<Rightarrow> data c = v)"

definition no_appointments :: statistics where
  "no_appointments =
     \<lparr>totalAppointments = 0, confirmedAppointments = 0, pendingAppointments = 0,
      cancelledAppointments = 0, appointmentsByMonth = [],
      pct_confirmed = 0, pct_pending = 0, pct_cancelled = 0\<rparr>"

section \<open>States used as examples\<close>

definition empty_storage :: storage where
  "empty_storage =
     \<lparr>cache = Map.empty, disk = Map.empty,
      read_fails = (\<lambda>k. False), write_fails = (\<lambda>k. False), remove_fails = (\<lambda>k. False)\<rparr>"

text \<open>A backend that rejects every read and every write, under a cache that holds a value.\<close>

definition failing_storage :: storage where
  "failing_storage =
     \<lparr>cache = [''k'' \<mapsto> \<lparr>data = JNum 1, timestamp = 0, expiry = None\<rparr>],
      disk = [''k'' \<mapsto> ''1''],
      read_fails = (\<lambda>k. True), write_fails = (\<lambda>k. True), remove_fails = (\<lambda>k. False)\<rparr>"

text \<open>A backend that takes writes and rejects reads.\<close>

definition unreadable_storage :: storage where
  "unreadable_storage = empty_storage\<lparr>read_fails := (\<lambda>k. True)\<rparr>"

text \<open>A backend that holds a text that is no JSON.\<close>

definition corrupt_storage :: storage where
  "corrupt_storage = empty_storage\<lparr>disk := [''k'' \<mapsto> ''{oops'']\<rparr>"

text \<open>The appointment of the example scenario, confirmed, and one with an ISO date.\<close>

definition appointment_a1 :: jsval where
  "appointment_a1 =
     JObj [(''id'', JStr ''a1''), (''patientId'', JStr ''p1''), (''doctorId'', JStr ''d1''),
           (''date'', JStr ''21/08/2025''), (''time'', JStr ''14:30''),
           (''specialty'', JStr ''Cardiologia''), (''status'', JStr ''confirmed'')]"

definition appointment_iso :: jsval where
  "appointment_iso =
     JObj [(''id'', JStr ''a2''), (''patientId'', JStr ''p1''), (''doctorId'', JStr ''d1''),
           (''date'', JStr ''2025-08-21''), (''time'', JStr ''14:30''),
           (''specialty'', JStr ''Cardiologia''), (''status'', JStr ''pending'')]"

definition one_appointment :: storage where
  "one_appointment = snd (saveAppointments (JArr [appointment_a1]) 0 empty_storage)"

text \<open>
  The cache holds one appointment while the backend holds two: a screen has written
  the key with \<^verbatim>\<open>AsyncStorage.setItem\<close> after the service cached it.
\<close>

definition stale_appointments :: storage where
  "stale_appointments =
     (case JSON_stringify (JArr [appointment_a1, appointment_iso]) of
        Inl e \<Rightarrow> one_appointment
      | Inr t \<Rightarrow> one_appointment\<lparr>disk := (disk one_appointment)(APPOINTMENTS \<mapsto> t)\<rparr>)"

text \<open>The backend holds one appointment and rejects reads, and the cache is empty.\<close>

definition unreadable_appointments :: storage where
  "unreadable_appointments = one_appointment\<lparr>cache := Map.empty, read_fails := (\<lambda>k. True)\<rparr>"

text \<open>A state in which the settings key holds \<^verbatim>\<open>null\<close>.\<close>

definition null_settings :: storage where
  "null_settings = snd (setItem APP_SETTINGS JNull None 0 empty_storage)"

text \<open>
  Notifications whose \<^verbatim>\<open>createdAt\<close> is a number of milliseconds, for which
  \<^verbatim>\<open>new Date(ms).getTime()\<close> is the number itself.
\<close>

definition epoch_ms :: "jsval option \<Rightarrow> int option" where
  "epoch_ms v = (case v of Some (JNum n) \<Rightarrow> Some n | _ \<Rightarrow> None)"

definition notification :: "string \<Rightarrow> string \<Rightarrow> int \<Rightarrow> jsval" where
  "notification i u t =
     JObj [(''id'', JStr i), (''userId'', JStr u), (''read'', JBool False), (''createdAt'', JNum t)]"

definition four_notifications :: storage where
  "four_notifications =
     snd (setItem NOTIFICATIONS
            (JArr [notification ''n1'' ''u1'' 100, notification ''n2'' ''u2'' 150,
                   notification ''n3'' ''u1'' 200, notification ''n4'' ''u1'' 100])
            None 0 empty_storage)"

section \<open>JSON-serializable values\<close>

text \<open>
  A value is serializable when \<^verbatim>\<open>JSON.stringify\<close> does not throw on it, and it
  reads back when \<^verbatim>\<open>JSON.parse\<close> of its text is the value again.
\<close>

definition serializable :: "jsval \<Rightarrow> bool" where
  "serializable v = (case JSON_stringify v of Inl e \<Rightarrow> False | Inr t \<Rightarrow> True)"

definition reads_back :: "jsval \<Rightarrow> bool" where
  "reads_back v = (case JSON_stringify v of Inl e \<Rightarrow> False | Inr t \<Rightarrow> JSON_parse t = Inr v)"

text \<open>
  The JSON values: no BigInt anywhere, and no object with a repeated key (an object
  of the language never has one).
\<close>

fun json_value :: "jsval \<Rightarrow> bool" where
  "json_value JNull = True"
| "json_value (JBool b) = True"
| "json_value (JNum n) = True"
| "json_value (JBigInt n) = False"
| "json_value (JStr s) = True"
| "json_value (JArr xs) = (\<forall>x\<in>set xs. json_value x)"
| "json_value (JObj ps) = (distinct (map fst ps) \<and> (\<forall>p\<in>set ps. json_value (snd p)))"

text \<open>What may follow a value inside a text, and what a value may start with.\<close>

definition number_end :: "string \<Rightarrow> bool" where
  "number_end r \<longleftrightarrow> r = [] \<or> hd r = CHR '','' \<or> hd r = CHR '']'' \<or> hd r = CHR ''}''"

definition value_start :: "char \<Rightarrow> bool" where
  "value_start c \<longleftrightarrow> \<not> is_ws c \<and> c \<noteq> CHR '']'' \<and> c \<noteq> CHR ''}''"

text \<open>The text of one member of an object, as \<open>JSON_stringify\<close> writes it.\<close>

definition member_text :: "string \<times> jsval \<Rightarrow> error + string" where
  "member_text = (\<lambda>(k, v). case JSON_stringify v of Inl e \<Rightarrow> Inl e | Inr t \<Rightarrow> Inr (quote k @ CHR '':'' # t))"

section \<open>The parser reads back what the serializer writes\<close>

lemma hex_val_hex_char: "d < 16 \<Longrightarrow> hex_val (hex_char d) = Some d"
  by (auto simp: hex_val_def hex_char_def Let_def)

lemma hex4_escape:
  assumes "of_char c < (32::nat)"
  shows "hex4 CHR ''0'' CHR ''0'' (hex_char (of_char c div 16)) (hex_char (of_char c mod 16)) = Some c"
proof -
  have "of_char c div 16 < (16::nat)" using assms by simp
  moreover have "of_char c mod 16 < (16::nat)" by simp
  moreover have "hex_val CHR ''0'' = Some 0" by (simp add: hex_val_def)
  moreover have "char_of (16 * (of_char c div 16) + of_char c mod (16::nat)) = c"
    by simp
  ultimately show ?thesis
    by (simp add: hex4_def hex_val_hex_char)
qed

lemma parse_chars_escape:
  "parse_chars (escape_char c @ r) =
     (case parse_chars r of None \<Rightarrow> None | Some (s, t) \<Rightarrow> Some (c # s, t))"
proof (cases "of_char c < (32::nat)")
  case True
  then show ?thesis
    by (auto simp: escape_char_def unescape_def hex4_escape split: option.splits)
next
  case False
  then show ?thesis
    by (auto simp: escape_char_def unescape_def split: option.splits)
qed

lemma parse_chars_quote:
  "parse_chars (concat (map escape_char s) @ CHR 0x22 # r) = Some (s, r)"
  by (induction s) (simp_all add: parse_chars_escape)


lemma is_digit_digit_char: "d < 10 \<Longrightarrow> is_digit (digit_char d)"
  by (simp add: is_digit_def digit_char_def)

lemma digit_val_digit_char: "d < 10 \<Longrightarrow> digit_val (digit_char d) = d"
  by (simp add: digit_val_def digit_char_def)

lemma digits_of_digits: "\<forall>c\<in>set (digits_of n). is_digit c"
proof (induction n rule: digits_of.induct)
  case (1 n)
  then show ?case
    by (subst digits_of.simps) (auto simp: is_digit_digit_char)
qed

lemma digits_of_not_empty: "digits_of n \<noteq> []"
  by (subst digits_of.simps) simp

lemma digits_val_snoc: "digits_val (ds @ [c]) = 10 * digits_val ds + digit_val c"
  by (simp add: digits_val_def)

lemma digits_val_digits_of: "digits_val (digits_of n) = n"
proof (induction n rule: digits_of.induct)
  case (1 n)
  show ?case
  proof (cases "n < 10")
    case True
    then show ?thesis
      by (subst digits_of.simps) (simp add: digits_val_def digit_val_digit_char)
  next
    case False
    then have "digits_val (digits_of (n div 10)) = n div 10" using 1 by simp
    with False show ?thesis
      by (subst digits_of.simps) (simp add: digits_val_snoc digit_val_digit_char)
  qed
qed

lemma digit_char_zero: "d < 10 \<Longrightarrow> digit_char d = CHR ''0'' \<longleftrightarrow> d = 0"
  by (auto simp: digit_char_def char_of_eq_iff take_bit_eq_mod)

lemma digits_of_leading: "0 < n \<Longrightarrow> hd (digits_of n) \<noteq> CHR ''0''"
proof (induction n rule: digits_of.induct)
  case (1 n)
  show ?case
  proof (cases "n < 10")
    case True
    with 1(2) show ?thesis
      by (subst digits_of.simps) (simp add: digit_char_zero)
  next
    case False
    then have "hd (digits_of (n div 10)) \<noteq> CHR ''0''" using 1 by simp
    with False show ?thesis
      by (subst digits_of.simps) (simp add: hd_append digits_of_not_empty)
  qed
qed

lemma digits_of_zero: "digits_of 0 = ''0''"
  by (subst digits_of.simps) (simp add: digit_char_def char_of_eq_iff take_bit_eq_mod)

lemma number_end_not_digit: "number_end r \<Longrightarrow> r \<noteq> [] \<Longrightarrow> \<not> is_digit (hd r)"
  by (auto simp: number_end_def is_digit_def)

lemma parse_nat_digits_of:
  assumes "number_end r"
  shows "parse_nat (digits_of n @ r) = Some (n, r)"
proof -
  have t: "takeWhile is_digit (digits_of n @ r) = digits_of n"
    using digits_of_digits [of n] number_end_not_digit [OF assms]
    by (cases r) (auto simp: takeWhile_append2)
  have d: "dropWhile is_digit (digits_of n @ r) = r"
    using digits_of_digits [of n] number_end_not_digit [OF assms]
    by (cases r) (auto simp: dropWhile_append2)
  have z: "\<not> (hd (digits_of n) = CHR ''0'' \<and> tl (digits_of n) \<noteq> [])"
    using digits_of_leading [of n] by (cases "n = 0") (auto simp: digits_of_zero)
  have e: "\<not> (r \<noteq> [] \<and> (hd r = CHR ''.'' \<or> hd r = CHR ''e'' \<or> hd r = CHR ''E''))"
    using assms by (auto simp: number_end_def)
  show ?thesis
    using z e by (simp add: parse_nat_def t d Let_def digits_of_not_empty digits_val_digits_of)
qed

lemma hd_digits_of_not_minus: "hd (digits_of n) \<noteq> CHR ''-''"
  using digits_of_digits [of n] digits_of_not_empty [of n]
  by (cases "digits_of n") (auto simp: is_digit_def)

lemma parse_number_show_int:
  assumes "number_end r"
  shows "parse_number (show_int i @ r) = Some (JNum i, r)"
proof (cases "i < 0")
  case True
  then show ?thesis
    by (simp add: parse_number_def show_int_def parse_nat_digits_of [OF assms])
next
  case False
  obtain c cs where c: "digits_of (nat i) = c # cs"
    using digits_of_not_empty [of "nat i"] by (cases "digits_of (nat i)") auto
  then have "c \<noteq> CHR ''-''" using hd_digits_of_not_minus [of "nat i"] by simp
  then have "parse_number (digits_of (nat i) @ r) = Some (JNum (int (nat i)), r)"
    using parse_nat_digits_of [OF assms, of "nat i"] c by (simp add: parse_number_def)
  with False show ?thesis by (simp add: show_int_def)
qed


lemma skip_ws_start: "\<not> is_ws c \<Longrightarrow> skip_ws (c # s) = c # s"
  by (simp add: skip_ws_def)

lemma show_int_start:
  "\<exists>c cs. show_int i = c # cs \<and> (c = CHR ''-'' \<or> is_digit c)"
proof -
  obtain c cs where c: "digits_of (nat \<bar>i\<bar>) = c # cs"
    using digits_of_not_empty [of "nat \<bar>i\<bar>"] by (cases "digits_of (nat \<bar>i\<bar>)") auto
  then have "is_digit c" using digits_of_digits [of "nat \<bar>i\<bar>"] by simp
  with c show ?thesis by (cases "i < 0") (auto simp: show_int_def)
qed

lemma parse_value_number:
  assumes "number_end r"
  shows "parse_value (Suc n) (show_int i @ r) = Some (JNum i, r)"
proof -
  obtain c cs where c: "show_int i = c # cs" "c = CHR ''-'' \<or> is_digit c"
    using show_int_start by blast
  then have "\<not> is_ws c" "c \<noteq> CHR ''n''" "c \<noteq> CHR ''t''" "c \<noteq> CHR ''f''" "c \<noteq> CHR 0x22"
    "c \<noteq> CHR ''[''" "c \<noteq> CHR ''{''"
    by (auto simp: is_ws_def is_digit_def)
  then have "parse_value (Suc n) (c # cs @ r) = parse_number (c # cs @ r)"
    by (simp add: skip_ws_start)
  then show ?thesis
    using parse_number_show_int [OF assms, of i] c(1) by simp
qed

lemma sequence_Cons:
  "sequence (y # ys) = Inr ts \<longleftrightarrow>
     (\<exists>t ts'. y = Inr t \<and> sequence ys = Inr ts' \<and> ts = t # ts')"
  by (cases y) (auto split: sum.splits)

lemma sequence_Nil_iff: "sequence (map f xs) = Inr [] \<longleftrightarrow> xs = []"
  by (cases xs) (auto simp: sequence_Cons)

lemma stringify_start:
  "JSON_stringify v = Inr t \<Longrightarrow> \<exists>c cs. t = c # cs \<and> value_start c"
proof (cases v)
  case (JNum i)
  assume "JSON_stringify v = Inr t"
  with JNum show ?thesis
    using show_int_start [of i] by (auto simp: value_start_def is_ws_def is_digit_def)
qed (auto simp: value_start_def is_ws_def quote_def split: sum.splits if_splits)


lemma join_comma_Cons:
  "join_comma (t # ts) @ r = t @ (if ts = [] then r else CHR '','' # join_comma ts @ r)"
  by (cases ts) simp_all

lemma number_end_simps:
  "number_end (CHR '','' # s)" "number_end (CHR '']'' # s)" "number_end (CHR ''}'' # s)" "number_end []"
  by (simp_all add: number_end_def)

lemma parse_elements_stringify:
  assumes "\<And>x t r k. x \<in> set xs \<Longrightarrow> JSON_stringify x = Inr t \<Longrightarrow> number_end r \<Longrightarrow> size x < k
             \<Longrightarrow> parse_value k (t @ r) = Some (x, r)"
    and "xs \<noteq> []"
    and "sequence (map JSON_stringify xs) = Inr ts"
    and "size_list size xs < k"
  shows "parse_elements k (join_comma ts @ CHR '']'' # r) = Some (xs, r)"
  using assms
proof (induction xs arbitrary: ts k)
  case Nil
  then show ?case by simp
next
  case (Cons x xs)
  obtain t ts' where t: "JSON_stringify x = Inr t" "sequence (map JSON_stringify xs) = Inr ts'"
    "ts = t # ts'"
    using Cons.prems(3) by (auto simp: sequence_Cons)
  obtain m where k: "k = Suc m" using Cons.prems(4) by (cases k) auto
  have sx: "size x < m" and sxs: "size_list size xs < m"
    using Cons.prems(4) k by simp_all
  show ?case
  proof (cases "xs = []")
    case True
    then have "ts' = []" using t(2) by simp
    moreover have "parse_value m (t @ CHR '']'' # r) = Some (x, CHR '']'' # r)"
      using Cons.prems(1) [of x t "CHR '']'' # r" m] t(1) sx by (simp add: number_end_simps)
    ultimately show ?thesis
      using True t(3) k by (simp add: skip_ws_start is_ws_def)
  next
    case False
    then have ne: "ts' \<noteq> []" using t(2) by (auto simp: sequence_Nil_iff)
    have "parse_value m (t @ CHR '','' # join_comma ts' @ CHR '']'' # r)
        = Some (x, CHR '','' # join_comma ts' @ CHR '']'' # r)"
      using Cons.prems(1) [of x t "CHR '','' # join_comma ts' @ CHR '']'' # r" m] t(1) sx
      by (simp add: number_end_simps)
    moreover have "parse_elements m (join_comma ts' @ CHR '']'' # r) = Some (xs, r)"
      using Cons.IH [OF _ False t(2) sxs] Cons.prems(1) by simp
    ultimately show ?thesis
      using ne t(3) k by (simp add: join_comma_Cons skip_ws_start is_ws_def)
  qed
qed


lemma parse_members_stringify:
  assumes "\<And>key v t r k. (key, v) \<in> set ps \<Longrightarrow> JSON_stringify v = Inr t \<Longrightarrow> number_end r
             \<Longrightarrow> size v < k \<Longrightarrow> parse_value k (t @ r) = Some (v, r)"
    and "ps \<noteq> []"
    and "sequence (map member_text ps) = Inr ts"
    and "size_list (size_prod (\<lambda>_. 0) size) ps < k"
  shows "parse_members k (join_comma ts @ CHR ''}'' # r) = Some (ps, r)"
  using assms
proof (induction ps arbitrary: ts k)
  case Nil
  then show ?case by simp
next
  case (Cons p ps)
  obtain key v where p: "p = (key, v)" by (cases p)
  obtain mt ts' where t: "member_text p = Inr mt" "sequence (map member_text ps) = Inr ts'"
    "ts = mt # ts'"
    using Cons.prems(3) by (auto simp: sequence_Cons)
  obtain tv where tv: "JSON_stringify v = Inr tv" "mt = quote key @ CHR '':'' # tv"
    using t(1) p by (auto simp: member_text_def split: sum.splits)
  obtain m where k: "k = Suc m" using Cons.prems(4) by (cases k) auto
  have sv: "size v < m" and sps: "size_list (size_prod (\<lambda>_. 0) size) ps < m"
    using Cons.prems(4) k p by simp_all
  have q: "parse_chars (concat (map escape_char key) @ CHR 0x22 # CHR '':'' # tv @ rest)
      = Some (key, CHR '':'' # tv @ rest)" for rest
    by (rule parse_chars_quote)
  show ?case
  proof (cases "ps = []")
    case True
    then have "ts' = []" using t(2) by simp
    moreover have "parse_value m (tv @ CHR ''}'' # r) = Some (v, CHR ''}'' # r)"
      using Cons.prems(1) [of key v tv "CHR ''}'' # r" m] tv(1) sv p by (simp add: number_end_simps)
    ultimately show ?thesis
      using True t(3) tv(2) k p q [of "CHR ''}'' # r"]
      by (simp add: quote_def skip_ws_start is_ws_def)
  next
    case False
    then have ne: "ts' \<noteq> []" using t(2) by (auto simp: sequence_Nil_iff)
    have "parse_value m (tv @ CHR '','' # join_comma ts' @ CHR ''}'' # r)
        = Some (v, CHR '','' # join_comma ts' @ CHR ''}'' # r)"
      using Cons.prems(1) [of key v tv "CHR '','' # join_comma ts' @ CHR ''}'' # r" m] tv(1) sv p
      by (simp add: number_end_simps)
    moreover have "parse_members m (join_comma ts' @ CHR ''}'' # r) = Some (ps, r)"
    proof (rule Cons.IH [OF _ False t(2) sps])
      fix key' v' t' r' k'
      assume "(key', v') \<in> set ps" "JSON_stringify v' = Inr t'" "number_end r'" "size v' < k'"
      then show "parse_value k' (t' @ r') = Some (v', r')"
        using Cons.prems(1) [of key' v' t' r' k'] by simp
    qed
    ultimately show ?thesis
      using ne t(3) tv(2) k p q [of "CHR '','' # join_comma ts' @ CHR ''}'' # r"]
      by (simp add: join_comma_Cons quote_def skip_ws_start is_ws_def)
  qed
qed

lemma spread_distinct:
  "distinct (map fst (acc @ ms)) \<Longrightarrow> spread acc ms = acc @ ms"
proof (induction ms arbitrary: acc)
  case Nil
  then show ?case by (simp add: spread_def)
next
  case (Cons m ms)
  obtain k v where m: "m = (k, v)" by (cases m)
  have "k \<notin> fst ` set acc" using Cons.prems m by auto
  then have u: "AList.update k v acc = acc @ [(k, v)]"
    by (induction acc) auto
  have "spread acc (m # ms) = spread (acc @ [m]) ms"
    using u m by (simp add: spread_def)
  also have "\<dots> = (acc @ [m]) @ ms"
    using Cons.prems by (intro Cons.IH) simp
  finally show ?case by simp
qed

lemma object_of_distinct: "distinct (map fst ms) \<Longrightarrow> object_of ms = JObj ms"
  using spread_distinct [of "[]" ms] by (simp add: object_of_def)

lemma join_comma_start:
  assumes "ts \<noteq> []" and "\<exists>c cs. hd ts = c # cs \<and> P c"
  shows "\<exists>c cs. join_comma ts @ r = c # cs \<and> P c"
  using assms by (cases ts) (auto simp: join_comma_Cons simp del: join_comma.simps)

lemma parse_value_stringify:
  assumes "json_value v" and "JSON_stringify v = Inr t" and "number_end r" and "size v < k"
  shows "parse_value k (t @ r) = Some (v, r)"
  using assms
proof (induction v arbitrary: t r k)
  case JNull
  then show ?case
    by (cases k) (auto simp: skip_ws_start is_ws_def literal_def)
next
  case (JBool b)
  then show ?case
    by (cases k) (auto simp: skip_ws_start is_ws_def literal_def)
next
  case (JNum i)
  then show ?case
    using parse_value_number by (cases k) auto
next
  case (JBigInt i)
  then show ?case by simp
next
  case (JStr s)
  then show ?case
    using parse_chars_quote [of s r]
    by (cases k) (auto simp: skip_ws_start is_ws_def quote_def)
next
  case (JArr xs)
  obtain ts where ts: "sequence (map JSON_stringify xs) = Inr ts"
    "t = CHR ''['' # join_comma ts @ '']''"
    using JArr.prems(2) by (auto split: sum.splits)
  obtain m where k: "k = Suc m" using JArr.prems(4) by (cases k) auto
  show ?case
  proof (cases "xs = []")
    case True
    then show ?thesis using ts k by (simp add: skip_ws_start is_ws_def)
  next
    case False
    then obtain x xs' where x: "xs = x # xs'" by (cases xs) auto
    then obtain tx ts' where tx: "JSON_stringify x = Inr tx" "ts = tx # ts'"
      using ts(1) by (auto simp: sequence_Cons)
    obtain c cs where c: "tx = c # cs" "value_start c"
      using stringify_start [OF tx(1)] by blast
    then obtain cs' where j: "join_comma ts @ CHR '']'' # r = c # cs'"
      using tx(2) by (auto simp: join_comma_Cons simp del: join_comma.simps)
    have e: "parse_elements m (join_comma ts @ CHR '']'' # r) = Some (xs, r)"
    proof (rule parse_elements_stringify [OF _ False ts(1)])
      show "size_list size xs < m" using JArr.prems(4) k by simp
    next
      fix y ty ry ky
      assume "y \<in> set xs" "JSON_stringify y = Inr ty" "number_end ry" "size y < ky"
      then show "parse_value ky (ty @ ry) = Some (y, ry)"
        using JArr.IH [of y ty ry ky] JArr.prems(1) by simp
    qed
    have "parse_value (Suc m) (CHR ''['' # c # cs') = Some (JArr xs, r)"
      using c(2) e j by (simp add: skip_ws_start is_ws_def value_start_def)
    then show ?thesis using ts(2) j k by simp
  qed
next
  case (JObj ps)
  obtain ts where ts: "sequence (map member_text ps) = Inr ts"
    "t = CHR ''{'' # join_comma ts @ ''}''"
    using JObj.prems(2) by (auto simp: member_text_def split: sum.splits)
  obtain m where k: "k = Suc m" using JObj.prems(4) by (cases k) auto
  show ?case
  proof (cases "ps = []")
    case True
    then show ?thesis using ts k by (simp add: skip_ws_start is_ws_def)
  next
    case False
    then obtain p ps' where p: "ps = p # ps'" by (cases ps) auto
    then obtain tp ts' where tp: "member_text p = Inr tp" "ts = tp # ts'"
      using ts(1) by (auto simp: sequence_Cons)
    then obtain cs where c: "tp = CHR 0x22 # cs"
      by (cases p) (auto simp: member_text_def quote_def split: sum.splits)
    then obtain cs' where j: "join_comma ts @ CHR ''}'' # r = CHR 0x22 # cs'"
      using tp(2) by (auto simp: join_comma_Cons simp del: join_comma.simps)
    have e: "parse_members m (join_comma ts @ CHR ''}'' # r) = Some (ps, r)"
    proof (rule parse_members_stringify [OF _ False ts(1)])
      show "size_list (size_prod (\<lambda>_. 0) size) ps < m" using JObj.prems(4) k by simp
    next
      fix key y ty ry ky
      assume "(key, y) \<in> set ps" "JSON_stringify y = Inr ty" "number_end ry" "size y < ky"
      then show "parse_value ky (ty @ ry) = Some (y, ry)"
        using JObj.IH [of "(key, y)" y ty ry ky] JObj.prems(1) by auto
    qed
    have "parse_value (Suc m) (CHR ''{'' # CHR 0x22 # cs') = Some (JObj ps, r)"
      using e j JObj.prems(1) by (simp add: skip_ws_start is_ws_def object_of_distinct)
    then show ?thesis using ts(2) j k by simp
  qed
qed


lemma length_join_comma:
  "length (join_comma (t # ts)) = length t + (if ts = [] then 0 else Suc (length (join_comma ts)))"
  by (cases ts) simp_all

lemma size_elements_bound:
  assumes "\<And>x t. x \<in> set xs \<Longrightarrow> JSON_stringify x = Inr t \<Longrightarrow> size x \<le> 2 * length t"
    and "sequence (map JSON_stringify xs) = Inr ts"
  shows "size_list size xs \<le> 2 * length (join_comma ts) + 1"
  using assms
proof (induction xs arbitrary: ts)
  case Nil
  then show ?case by simp
next
  case (Cons x xs)
  obtain t ts' where t: "JSON_stringify x = Inr t" "sequence (map JSON_stringify xs) = Inr ts'"
    "ts = t # ts'"
    using Cons.prems(2) by (auto simp: sequence_Cons)
  have 1: "size x \<le> 2 * length t" using Cons.prems(1) t(1) by simp
  have 2: "size_list size xs \<le> 2 * length (join_comma ts') + 1"
    using Cons.IH [OF _ t(2)] Cons.prems(1) by simp
  have 3: "xs = [] \<longleftrightarrow> ts' = []" using t(2) by (auto simp: sequence_Nil_iff)
  show ?case
    using 1 2 3 unfolding t(3) length_join_comma by (cases "xs = []") auto
qed

lemma size_members_bound:
  assumes "\<And>key v t. (key, v) \<in> set ps \<Longrightarrow> JSON_stringify v = Inr t \<Longrightarrow> size v \<le> 2 * length t"
    and "sequence (map member_text ps) = Inr ts"
  shows "size_list (size_prod (\<lambda>_. 0) size) ps \<le> 2 * length (join_comma ts) + 1"
  using assms
proof (induction ps arbitrary: ts)
  case Nil
  then show ?case by simp
next
  case (Cons p ps)
  obtain key v where p: "p = (key, v)" by (cases p)
  obtain mt ts' where t: "member_text p = Inr mt" "sequence (map member_text ps) = Inr ts'"
    "ts = mt # ts'"
    using Cons.prems(2) by (auto simp: sequence_Cons)
  obtain tv where tv: "JSON_stringify v = Inr tv" "mt = quote key @ CHR '':'' # tv"
    using t(1) p by (auto simp: member_text_def split: sum.splits)
  have 1: "size v \<le> 2 * length tv" using Cons.prems(1) [of key v tv] tv(1) p by simp
  have 2: "size_list (size_prod (\<lambda>_. 0) size) ps \<le> 2 * length (join_comma ts') + 1"
  proof (rule Cons.IH [OF _ t(2)])
    fix key' v' t'
    assume "(key', v') \<in> set ps" "JSON_stringify v' = Inr t'"
    then show "size v' \<le> 2 * length t'" using Cons.prems(1) [of key' v' t'] by simp
  qed
  have 3: "length tv + 3 \<le> length mt" using tv(2) by (simp add: quote_def)
  show ?case
    using 1 2 3 p unfolding t(3) length_join_comma by (cases "ts' = []") auto
qed

lemma stringify_size: "JSON_stringify v = Inr t \<Longrightarrow> size v \<le> 2 * length t"
proof (induction v arbitrary: t)
  case (JArr xs)
  obtain ts where ts: "sequence (map JSON_stringify xs) = Inr ts"
    "t = CHR ''['' # join_comma ts @ '']''"
    using JArr.prems by (auto split: sum.splits)
  have "size_list size xs \<le> 2 * length (join_comma ts) + 1"
    using JArr.IH ts(1) by (intro size_elements_bound) auto
  then show ?case using ts(2) by simp
next
  case (JObj ps)
  obtain ts where ts: "sequence (map member_text ps) = Inr ts"
    "t = CHR ''{'' # join_comma ts @ ''}''"
    using JObj.prems by (auto simp: member_text_def split: sum.splits)
  have "size_list (size_prod (\<lambda>_. 0) size) ps \<le> 2 * length (join_comma ts) + 1"
  proof (rule size_members_bound [OF _ ts(1)])
    fix key v t'
    assume "(key, v) \<in> set ps" "JSON_stringify v = Inr t'"
    then show "size v \<le> 2 * length t'"
      using JObj.IH [of "(key, v)" v t'] by simp
  qed
  then show ?case using ts(2) by simp
qed simp_all

lemma sequence_total:
  "(\<And>x. x \<in> set xs \<Longrightarrow> \<exists>t. f x = Inr t) \<Longrightarrow> \<exists>ts. sequence (map f xs) = Inr ts"
proof (induction xs)
  case Nil
  then show ?case by simp
next
  case (Cons x xs)
  then obtain t ts where "f x = Inr t" "sequence (map f xs) = Inr ts"
    by (metis list.set_intros(1,2))
  then show ?case by simp
qed

lemma serializable_iff: "serializable v \<longleftrightarrow> (\<exists>t. JSON_stringify v = Inr t)"
  by (simp add: serializable_def split: sum.splits)

lemma json_value_serializable: "json_value v \<Longrightarrow> serializable v"
proof (induction v)
  case (JArr xs)
  then have "\<exists>ts. sequence (map JSON_stringify xs) = Inr ts"
    by (intro sequence_total) (simp add: serializable_iff)
  then show ?case by (auto simp: serializable_def)
next
  case (JObj ps)
  have "\<exists>ts. sequence (map member_text ps) = Inr ts"
  proof (rule sequence_total)
    fix p assume p: "p \<in> set ps"
    obtain key v where kv: "p = (key, v)" by (cases p)
    then have "serializable v" using JObj.IH [of p v] JObj.prems p by auto
    then show "\<exists>t. member_text p = Inr t"
      using kv by (auto simp: member_text_def serializable_def split: sum.splits)
  qed
  then show ?case by (auto simp: serializable_def member_text_def)
qed (simp_all add: serializable_def)

lemma json_value_reads_back: "json_value v \<Longrightarrow> reads_back v"
proof -
  assume v: "json_value v"
  then obtain t where t: "JSON_stringify v = Inr t"
    using json_value_serializable [of v] by (auto simp: serializable_def split: sum.splits)
  have "size v < 2 * length t + 2" using stringify_size [OF t] by simp
  then have "parse_value (2 * length t + 2) (t @ []) = Some (v, [])"
    using v t by (intro parse_value_stringify) (simp_all add: number_end_simps)
  then show ?thesis
    using t by (simp add: reads_back_def JSON_parse_def skip_ws_def)
qed

text \<open>Conversely, whatever the parser returns is a JSON value.\<close>

lemma update_values:
  "(\<forall>p\<in>set acc. P (snd p)) \<Longrightarrow> P v \<Longrightarrow> \<forall>p\<in>set (AList.update k v acc). P (snd p)"
  by (induction acc) auto

lemma spread_values:
  "(\<forall>p\<in>set acc. P (snd p)) \<Longrightarrow> (\<forall>p\<in>set ms. P (snd p)) \<Longrightarrow> \<forall>p\<in>set (spread acc ms). P (snd p)"
proof (induction ms arbitrary: acc)
  case Nil
  then show ?case by (simp add: spread_def)
next
  case (Cons m ms)
  obtain k v where m: "m = (k, v)" by (cases m)
  have "\<forall>p\<in>set (AList.update k v acc). P (snd p)"
    using Cons.prems m by (intro update_values) auto
  then have "\<forall>p\<in>set (spread (AList.update k v acc) ms). P (snd p)"
    using Cons.prems by (intro Cons.IH) auto
  then show ?case using m by (simp add: spread_def)
qed

lemma spread_keys_distinct:
  "distinct (map fst acc) \<Longrightarrow> distinct (map fst (spread acc ms))"
proof (induction ms arbitrary: acc)
  case Nil
  then show ?case by (simp add: spread_def)
next
  case (Cons m ms)
  obtain k v where m: "m = (k, v)" by (cases m)
  have "distinct (map fst (AList.update k v acc))"
    using Cons.prems by (rule distinct_update)
  then have "distinct (map fst (spread (AList.update k v acc) ms))" by (rule Cons.IH)
  then show ?case using m by (simp add: spread_def)
qed

lemma object_of_json_value:
  "\<forall>p\<in>set ms. json_value (snd p) \<Longrightarrow> json_value (object_of ms)"
  using spread_values [of "[]" json_value ms] spread_keys_distinct [of "[]" ms]
  by (simp add: object_of_def)

lemma parse_number_json_value: "parse_number s = Some (v, r) \<Longrightarrow> json_value v"
  by (auto simp: parse_number_def split: list.splits if_splits option.splits)

lemma literal_json_value: "literal p v s = Some (w, r) \<Longrightarrow> w = v"
  by (auto simp: literal_def split: option.splits)

lemma parsed_json_value:
  "(\<forall>s v r. parse_value n s = Some (v, r) \<longrightarrow> json_value v) \<and>
   (\<forall>s vs r. parse_elements n s = Some (vs, r) \<longrightarrow> (\<forall>x\<in>set vs. json_value x)) \<and>
   (\<forall>s ms r. parse_members n s = Some (ms, r) \<longrightarrow> (\<forall>p\<in>set ms. json_value (snd p)))"
proof (induction n)
  case 0
  then show ?case by simp
next
  case (Suc n)
  have V: "json_value v" if "parse_value n s = Some (v, r)" for s v r
    using that Suc by blast
  have E: "json_value x" if "parse_elements n s = Some (vs, r)" "x \<in> set vs" for s vs r x
    using that Suc by blast
  have M: "json_value v" if "parse_members n s = Some (ms, r)" "(k, v) \<in> set ms" for s ms r k v
    using that Suc by fastforce
  have 1: "json_value v" if "parse_value (Suc n) s = Some (v, r)" for s v r
    using that
    by (auto dest!: literal_json_value parse_number_json_value
          intro!: object_of_json_value intro: E M
          split: list.splits if_splits option.splits prod.splits)
  have 2: "\<forall>x\<in>set vs. json_value x" if "parse_elements (Suc n) s = Some (vs, r)" for s vs r
    using that
    by (auto intro: V E split: list.splits if_splits option.splits prod.splits)
  have 3: "\<forall>p\<in>set ms. json_value (snd p)" if "parse_members (Suc n) s = Some (ms, r)" for s ms r
    using that
    by (auto intro: V M split: list.splits if_splits option.splits prod.splits)
  from 1 2 3 show ?case by blast
qed

lemma JSON_parse_json_value: "JSON_parse s = Inr v \<Longrightarrow> json_value v"
proof -
  assume "JSON_parse s = Inr v"
  then obtain r where "parse_value (2 * length s + 2) s = Some (v, r)"
    unfolding JSON_parse_def by (auto split: option.splits if_splits simp del: parse_value.simps)
  then show ?thesis using parsed_json_value [of "2 * length s + 2"] by blast
qed

lemma read_collection_json_value: "read_collection key st = Inr v \<Longrightarrow> json_value v"
  by (auto simp: read_collection_def dest: JSON_parse_json_value split: sum.splits option.splits if_splits)

section \<open>Failed writes (C10) and the cache round trip (C2)\<close>

lemma setItem_fails_iff:
  "fst (setItem key val ttl now st) = Inl e \<longleftrightarrow>
     (JSON_stringify val = Inl e \<or> (\<exists>t. JSON_stringify val = Inr t) \<and> write_fails st key \<and> e = StorageError)"
  by (auto simp: setItem_def AsyncStorage_setItem_def split: sum.splits)

lemma setItem_fails_state:
  "fst (setItem key val ttl now st) = Inl e \<Longrightarrow> snd (setItem key val ttl now st) = st"
  by (auto simp: setItem_def split: sum.splits)

text \<open>
  C10. \<open>setItem\<close> fails exactly when the serializer throws or the backend write
  rejects; that error is the result of the call, and the state is the state before the
  call: the cache entry of the key is the old one, and every later \<open>getItem\<close> gives
  what it would have given without the failed call.
\<close>

theorem setItem_failure_keeps_cache:
  "(fst (setItem key val ttl now st) = Inl e \<longleftrightarrow>
      (JSON_stringify val = Inl e \<or>
       (\<exists>t. JSON_stringify val = Inr t) \<and> write_fails st key \<and> e = StorageError)) \<and>
   (fst (setItem key val ttl now st) = Inl e \<longrightarrow>
      snd (setItem key val ttl now st) = st \<and>
      cache (snd (setItem key val ttl now st)) key = cache st key \<and>
      (\<forall>d t. getItem key d t (snd (setItem key val ttl now st)) = getItem key d t st))"
  using setItem_fails_iff [of key val ttl now st e] setItem_fails_state [of key val ttl now st e]
  by simp

theorem setItem_failure_keeps_cache_witness:
  "fst (setItem ''k'' (JNum 2) None 5 failing_storage) = Inl StorageError \<and>
   snd (setItem ''k'' (JNum 2) None 5 failing_storage) = failing_storage \<and>
   cache (snd (setItem ''k'' (JNum 2) None 5 failing_storage)) ''k'' = cache failing_storage ''k'' \<and>
   getItem ''k'' None 9 (snd (setItem ''k'' (JNum 2) None 5 failing_storage))
     = getItem ''k'' None 9 failing_storage \<and>
   fst (getItem ''k'' None 9 failing_storage) = Inr (JNum 1) \<and>
   fst (setItem ''k'' (JArr [JBigInt 1]) None 5 empty_storage) = Inl TypeError \<and>
   snd (setItem ''k'' (JArr [JBigInt 1]) None 5 empty_storage) = empty_storage"
proof -
  have f: "fst (setItem ''k'' (JNum 2) None 5 failing_storage) = Inl StorageError"
    by (simp add: setItem_def AsyncStorage_setItem_def failing_storage_def show_int_def)
  have g: "fst (getItem ''k'' None 9 failing_storage) = Inr (JNum 1)"
    by (simp add: getItem_def getItem_try_def unexpired_def failing_storage_def)
  have h: "fst (setItem ''k'' (JArr [JBigInt 1]) None 5 empty_storage) = Inl TypeError"
    by (simp add: setItem_def)
  from f g h
    setItem_failure_keeps_cache [of "''k''" "JNum 2" None 5 failing_storage StorageError]
    setItem_failure_keeps_cache [of "''k''" "JArr [JBigInt 1]" None 5 empty_storage TypeError]
  show ?thesis by simp
qed

text \<open>
  C2. For a serializable value and a backend that takes the write, \<open>setItem\<close>
  without TTL succeeds, and a \<open>getItem\<close> of the key after it, at any time and with
  any default, returns the value itself: it comes from the cache, whatever the backend
  does on reads.
\<close>

theorem setItem_getItem_roundtrip:
  assumes "serializable val" and "\<not> write_fails st key"
  shows "fst (setItem key val None now st) = Inr () \<and>
         fst (getItem key d t (snd (setItem key val None now st))) = Inr val"
  using assms
  by (auto simp: serializable_def setItem_def AsyncStorage_setItem_def getItem_def getItem_try_def
        unexpired_def expiry_of_def split: sum.splits)

theorem setItem_getItem_roundtrip_witness:
  "serializable (JArr [JNum 1, JStr ''a'']) \<and> \<not> write_fails empty_storage ''k'' \<and>
   fst (setItem ''k'' (JArr [JNum 1, JStr ''a'']) None 0 empty_storage) = Inr () \<and>
   fst (getItem ''k'' None 0 (snd (setItem ''k'' (JArr [JNum 1, JStr ''a'']) None 0 empty_storage)))
     = Inr (JArr [JNum 1, JStr ''a''])"
proof -
  have s: "serializable (JArr [JNum 1, JStr ''a''])"
    by (simp add: serializable_def)
  have w: "\<not> write_fails empty_storage ''k''"
    by (simp add: empty_storage_def)
  from s w setItem_getItem_roundtrip [OF s w, where now = 0 and d = None and t = 0]
  show ?thesis by simp
qed

section \<open>Expiry (C1)\<close>

lemma JSON_parse_empty: "JSON_parse [] = Inl SyntaxError"
  by (simp add: JSON_parse_def numeral_2_eq_2 skip_ws_def)

text \<open>
  C1, as stated, fails: the TTL bounds the life of the cache entry only. One minute
  and one millisecond after \<^verbatim>\<open>setItem('k', 7, 1)\<close>, \<open>getItem\<close> finds the entry
  expired, reads the text that \<open>setItem\<close> wrote to the backend and returns 7, with
  or without a default.
\<close>

theorem getItem_after_ttl_counterexample:
  "fst (setItem ''k'' (JNum 7) (Some 1) 0 empty_storage) = Inr () \<and>
   fst (getItem ''k'' (Some (JStr ''default'')) 60001
          (snd (setItem ''k'' (JNum 7) (Some 1) 0 empty_storage))) = Inr (JNum 7) \<and>
   fst (getItem ''k'' None 60001
          (snd (setItem ''k'' (JNum 7) (Some 1) 0 empty_storage))) = Inr (JNum 7)"
  by code_simp

text \<open>
  C1, amended. After a successful \<open>setItem\<close> with a TTL of \<open>T > 0\<close> minutes at
  time \<open>t0\<close>: a \<open>getItem\<close> strictly before \<open>t0 + T\<close> minutes returns the value
  from the cache and changes nothing. A \<open>getItem\<close> at or after that time (on a clock
  that is not negative) evicts the expired entry and reads the backend: it returns the
  value parsed from the text the backend then holds, which is the value again when the
  text is the one \<open>setItem\<close> wrote and the value is a JSON value, and caches it
  without expiry. When the backend read rejects, the entry stays evicted and the call
  returns the supplied default if that is truthy, \<^verbatim>\<open>null\<close> if none was supplied.
\<close>

theorem getItem_after_setItem_ttl:
  assumes "fst (setItem key val (Some T) t0 st) = Inr ()" and "0 < T"
  shows "(t < t0 + T * 60000 \<longrightarrow>
            getItem key d t (snd (setItem key val (Some T) t0 st))
              = (Inr val, snd (setItem key val (Some T) t0 st))) \<and>
         (t0 + T * 60000 \<le> t \<and> \<not> read_fails st key \<and> json_value val \<longrightarrow>
            fst (getItem key d t (snd (setItem key val (Some T) t0 st))) = Inr val) \<and>
         (t0 + T * 60000 \<le> t \<and> 0 \<le> t0 \<and> \<not> read_fails st key \<and> json_value val \<longrightarrow>
            snd (getItem key d t (snd (setItem key val (Some T) t0 st)))
              = (snd (setItem key val (Some T) t0 st))
                  \<lparr>cache := (cache (snd (setItem key val (Some T) t0 st)))
                     (key \<mapsto> \<lparr>data = val, timestamp = t, expiry = None\<rparr>)\<rparr>) \<and>
         (t0 + T * 60000 \<le> t \<and> 0 \<le> t0 \<and> \<not> read_fails st key \<and> JSON_parse text' = Inr v' \<longrightarrow>
            getItem key d t ((snd (setItem key val (Some T) t0 st))
                               \<lparr>disk := (disk (snd (setItem key val (Some T) t0 st)))(key \<mapsto> text')\<rparr>)
              = (Inr v',
                 (snd (setItem key val (Some T) t0 st))
                   \<lparr>disk := (disk (snd (setItem key val (Some T) t0 st)))(key \<mapsto> text'),
                    cache := (cache (snd (setItem key val (Some T) t0 st)))
                      (key \<mapsto> \<lparr>data = v', timestamp = t, expiry = None\<rparr>)\<rparr>)) \<and>
         (t0 + T * 60000 \<le> t \<and> 0 \<le> t0 \<and> read_fails st key \<and>
          (case d of None \<Rightarrow> True | Some v \<Rightarrow> truthy v) \<longrightarrow>
            fst (getItem key d t (snd (setItem key val (Some T) t0 st)))
              = Inr (case d of None \<Rightarrow> JNull | Some v \<Rightarrow> v) \<and>
            cache (snd (getItem key d t (snd (setItem key val (Some T) t0 st)))) key = None)"
  using assms json_value_reads_back [of val]
  by (auto simp: setItem_def AsyncStorage_setItem_def getItem_def getItem_try_def getItem_load_def
        AsyncStorage_getItem_def unexpired_def expiry_of_def reads_back_def JSON_parse_empty
        default_or_null_def
        split: sum.splits if_splits option.splits)

theorem getItem_after_setItem_ttl_witness:
  "fst (setItem ''k'' (JNum 7) (Some 1) 0 empty_storage) = Inr () \<and>
   getItem ''k'' None 59999 (snd (setItem ''k'' (JNum 7) (Some 1) 0 empty_storage))
     = (Inr (JNum 7), snd (setItem ''k'' (JNum 7) (Some 1) 0 empty_storage)) \<and>
   \<not> read_fails empty_storage ''k'' \<and> json_value (JNum 7) \<and>
   fst (getItem ''k'' None 60000 (snd (setItem ''k'' (JNum 7) (Some 1) 0 empty_storage)))
     = Inr (JNum 7) \<and>
   cache (snd (setItem ''k'' (JNum 7) (Some 1) 0 empty_storage)) ''k''
     = Some \<lparr>data = JNum 7, timestamp = 0, expiry = Some 60000\<rparr> \<and>
   cache (snd (getItem ''k'' None 60000 (snd (setItem ''k'' (JNum 7) (Some 1) 0 empty_storage)))) ''k''
     = Some \<lparr>data = JNum 7, timestamp = 60000, expiry = None\<rparr> \<and>
   JSON_parse ''8'' = Inr (JNum 8) \<and>
   fst (getItem ''k'' None 60000
          ((snd (setItem ''k'' (JNum 7) (Some 1) 0 empty_storage))
             \<lparr>disk := (disk (snd (setItem ''k'' (JNum 7) (Some 1) 0 empty_storage)))(''k'' \<mapsto> ''8'')\<rparr>))
     = Inr (JNum 8) \<and>
   fst (setItem ''k'' (JNum 7) (Some 1) 0 unreadable_storage) = Inr () \<and>
   read_fails unreadable_storage ''k'' \<and>
   fst (getItem ''k'' (Some (JStr ''d'')) 60000
          (snd (setItem ''k'' (JNum 7) (Some 1) 0 unreadable_storage))) = Inr (JStr ''d'') \<and>
   cache (snd (getItem ''k'' (Some (JStr ''d'')) 60000
          (snd (setItem ''k'' (JNum 7) (Some 1) 0 unreadable_storage)))) ''k'' = None"
proof -
  have a: "fst (setItem ''k'' (JNum 7) (Some 1) 0 empty_storage) = Inr ()"
    by code_simp
  have b: "fst (setItem ''k'' (JNum 7) (Some 1) 0 unreadable_storage) = Inr ()"
    by code_simp
  have c: "cache (snd (setItem ''k'' (JNum 7) (Some 1) 0 empty_storage)) ''k''
     = Some \<lparr>data = JNum 7, timestamp = 0, expiry = Some 60000\<rparr>"
    by (simp add: setItem_def AsyncStorage_setItem_def empty_storage_def expiry_of_def show_int_def)
  have r: "json_value (JNum 7)"
    by simp
  have q: "JSON_parse ''8'' = Inr (JNum 8)"
    by code_simp
  have e: "\<not> read_fails empty_storage ''k''" "read_fails unreadable_storage ''k''"
    by (simp_all add: empty_storage_def unreadable_storage_def)
  have p: "(0::int) < 1"
    by simp
  from a b c r q e
    getItem_after_setItem_ttl [OF a p, where t = 59999 and d = None]
    getItem_after_setItem_ttl [OF a p, where t = 60000 and d = None and text' = "''8''" and v' = "JNum 8"]
    getItem_after_setItem_ttl [OF b p, where t = 60000 and d = "Some (JStr ''d'')"]
  show ?thesis by simp
qed

section \<open>Defaults of getItem (C3, C4)\<close>

lemma getItem_never_throws: "\<exists>v. fst (getItem key d now st) = Inr v"
  by (auto simp: getItem_def split: prod.splits sum.splits)

lemma getItem_fails_soft:
  "fst (getItem_try key d now st) = Inl e \<Longrightarrow> fst (getItem key d now st) = Inr (default_or_null d)"
  by (auto simp: getItem_def split: prod.splits sum.splits)

lemma getItem_try_fails_iff:
  "(\<exists>e. fst (getItem_try key d now st) = Inl e) \<longleftrightarrow>
     (case cache st key of None \<Rightarrow> True | Some c \<Rightarrow> \<not> unexpired c now) \<and>
     (read_fails st key \<or>
      (\<exists>stored. disk st key = Some stored \<and> stored \<noteq> [] \<and> JSON_parse stored = Inl SyntaxError))"
  by (auto simp: getItem_try_def getItem_load_def AsyncStorage_getItem_def JSON_parse_def
        split: option.splits sum.splits if_splits)

lemma default_or_null_truthy: "truthy v \<Longrightarrow> default_or_null (Some v) = v"
  by (simp add: default_or_null_def)

lemma removeItem_getItem:
  "fst (removeItem key st) = Inr () \<Longrightarrow>
   fst (getItem key d t (snd (removeItem key st))) = Inr (default_or_null d)"
  by (auto simp: removeItem_def AsyncStorage_removeItem_def getItem_def
        getItem_try_def getItem_load_def AsyncStorage_getItem_def split: if_splits)

text \<open>
  C3 at its failing inputs. \<open>getItem\<close> does not throw, but on an error it returns
  \<^verbatim>\<open>defaultValue || null\<close>: with the default 0 and a backend read that rejects,
  and with the default \<^verbatim>\<open>false\<close> and a stored text that does not parse, the
  result is \<^verbatim>\<open>null\<close>, not the default.
\<close>

theorem getItem_error_falsy_default:
  "fst (getItem ''k'' (Some (JNum 0)) 0 unreadable_storage) = Inr JNull \<and>
   fst (getItem ''k'' (Some (JBool False)) 0 corrupt_storage) = Inr JNull"
  by code_simp

text \<open>
  C4 at its failing inputs. After \<open>removeItem\<close>, \<open>getItem\<close> with the default 0,
  \<^verbatim>\<open>false\<close> or the empty string returns \<^verbatim>\<open>null\<close>; with the empty list,
  which is truthy, it returns the empty list.
\<close>

theorem removeItem_getItem_falsy_default:
  "fst (removeItem ''k'' empty_storage) = Inr () \<and>
   fst (getItem ''k'' (Some (JNum 0)) 0 (snd (removeItem ''k'' empty_storage))) = Inr JNull \<and>
   fst (getItem ''k'' (Some (JBool False)) 0 (snd (removeItem ''k'' empty_storage))) = Inr JNull \<and>
   fst (getItem ''k'' (Some (JStr [])) 0 (snd (removeItem ''k'' empty_storage))) = Inr JNull \<and>
   fst (getItem ''k'' (Some (JArr [])) 0 (snd (removeItem ''k'' empty_storage))) = Inr (JArr [])"
  by (simp add: removeItem_def AsyncStorage_removeItem_def empty_storage_def getItem_def
        getItem_try_def getItem_load_def AsyncStorage_getItem_def default_or_null_def)

section \<open>Frame lemmas of the storage service\<close>

lemma keys_distinct:
  "APPOINTMENTS \<noteq> NOTIFICATIONS" "APPOINTMENTS \<noteq> REGISTERED_USERS" "APPOINTMENTS \<noteq> APP_SETTINGS"
  "NOTIFICATIONS \<noteq> REGISTERED_USERS" "NOTIFICATIONS \<noteq> APP_SETTINGS" "REGISTERED_USERS \<noteq> APP_SETTINGS"
  "NOTIFICATIONS \<noteq> APPOINTMENTS" "REGISTERED_USERS \<noteq> APPOINTMENTS" "APP_SETTINGS \<noteq> APPOINTMENTS"
  "REGISTERED_USERS \<noteq> NOTIFICATIONS" "APP_SETTINGS \<noteq> NOTIFICATIONS" "APP_SETTINGS \<noteq> REGISTERED_USERS"
  by (simp_all add: APPOINTMENTS_def NOTIFICATIONS_def REGISTERED_USERS_def APP_SETTINGS_def)

lemma getItem_result: "\<exists>v st1. getItem key d now st = (Inr v, st1)"
  by (auto simp: getItem_def split: prod.splits sum.splits)

lemma getItem_faults:
  "write_fails (snd (getItem key d now st)) = write_fails st"
  "read_fails (snd (getItem key d now st)) = read_fails st"
  "disk (snd (getItem key d now st)) = disk st"
  by (auto simp: getItem_def getItem_try_def getItem_load_def AsyncStorage_getItem_def
        split: option.splits sum.splits if_splits)

lemma getItem_same_at:
  "same_at key st st' \<Longrightarrow> fst (getItem key d now st) = fst (getItem key d now st')"
  by (auto simp: same_at_def getItem_def getItem_try_def getItem_load_def AsyncStorage_getItem_def
        split: option.splits sum.splits if_splits)

lemma getItem_frame:
  "key \<noteq> key' \<Longrightarrow> same_at key st (snd (getItem key' d now st))"
  by (auto simp: same_at_def getItem_def getItem_try_def getItem_load_def AsyncStorage_getItem_def
        split: option.splits sum.splits if_splits)

lemma same_at_trans: "same_at k a b \<Longrightarrow> same_at k b c \<Longrightarrow> same_at k a c"
  by (simp add: same_at_def)

lemma pinned_getItem: "pinned key v st \<Longrightarrow> fst (getItem key d t st) = Inr v"
  by (auto simp: pinned_def getItem_def getItem_try_def unexpired_def split: option.splits)

lemma setItem_pins:
  "fst (setItem key v None now st) = Inr () \<Longrightarrow> pinned key v (snd (setItem key v None now st))"
  by (auto simp: pinned_def setItem_def AsyncStorage_setItem_def expiry_of_def
        split: sum.splits if_splits)

lemma setItem_keeps_pinned:
  "pinned key v st \<Longrightarrow> key \<noteq> key' \<Longrightarrow> pinned key v (snd (setItem key' v' ttl now st))"
  by (auto simp: pinned_def setItem_def AsyncStorage_setItem_def split: sum.splits if_splits)

lemma setItem_faults:
  "write_fails (snd (setItem key v ttl now st)) = write_fails st"
  by (auto simp: setItem_def AsyncStorage_setItem_def split: sum.splits if_splits)

lemma setItem_succeeds:
  "serializable val \<Longrightarrow> \<not> write_fails st key \<Longrightarrow> fst (setItem key val ttl now st) = Inr ()"
  by (auto simp: serializable_def setItem_def AsyncStorage_setItem_def split: sum.splits)

section \<open>Update with an unknown id (C8)\<close>

lemma sequence_update_no_match:
  assumes "\<forall>x\<in>set xs. x \<noteq> JNull \<and> get_prop x ''id'' \<noteq> Inr (Some (JStr appointmentId))"
  shows "sequence (map (update_if_match appointmentId updates) xs) = Inr xs"
  using assms
proof (induction xs)
  case Nil
  then show ?case by simp
next
  case (Cons x xs)
  then have "update_if_match appointmentId updates x = Inr x"
    by (cases x) (auto simp: update_if_match_def)
  with Cons show ?case by simp
qed

lemma getItem_reads_store:
  assumes "read_collection key st = Inr v" and "cache_agrees key v st" and "truthy v"
    and "v = JArr [] \<or> disk st key \<noteq> None \<and> disk st key \<noteq> Some []"
  shows "fst (getItem key (Some (JArr [])) now st) = Inr v"
  using assms
  by (auto simp: read_collection_def cache_agrees_def getItem_def getItem_try_def getItem_load_def
        AsyncStorage_getItem_def default_or_null_def
        split: option.splits sum.splits if_splits)

lemma getAppointments_reads_store:
  assumes "read_collection APPOINTMENTS st = Inr (JArr xs)" and "cache_agrees APPOINTMENTS (JArr xs) st"
  shows "fst (getAppointments now st) = Inr (JArr xs)"
proof -
  have "JArr xs = JArr [] \<or> disk st APPOINTMENTS \<noteq> None \<and> disk st APPOINTMENTS \<noteq> Some []"
    using assms(1)
    by (auto simp: read_collection_def AsyncStorage_getItem_def split: option.splits sum.splits if_splits)
  then show ?thesis
    using getItem_reads_store [OF assms, of now] by (simp add: getAppointments_def)
qed

lemma read_collection_after_setItem:
  assumes "json_value v" and "\<not> write_fails st key" and "\<not> read_fails st key"
  shows "read_collection key (snd (setItem key v ttl now st)) = Inr v"
proof -
  obtain t where t: "JSON_stringify v = Inr t" "JSON_parse t = Inr v"
    using json_value_reads_back [OF assms(1)] by (auto simp: reads_back_def split: sum.splits)
  then have "t \<noteq> []" using JSON_parse_empty by auto
  then show ?thesis
    using t assms(2,3)
    by (simp add: setItem_def AsyncStorage_setItem_def read_collection_def AsyncStorage_getItem_def)
qed

text \<open>
  C8, as stated, fails: \<open>updateAppointment\<close> writes back what \<open>getAppointments\<close>
  returns, and that is the cached collection, or the empty list when the backend read
  rejects. With an id that matches nothing, a backend that holds two appointments under
  a cache that holds one is left with one; and a backend that holds one appointment and
  rejects the read, under an empty cache, is left with the empty list.
\<close>

theorem updateAppointment_counterexample:
  "read_collection APPOINTMENTS stale_appointments = Inr (JArr [appointment_a1, appointment_iso]) \<and>
   fst (updateAppointment ''zz'' [(''status'', JStr ''cancelled'')] 5 stale_appointments) = Inr () \<and>
   read_collection APPOINTMENTS
     (snd (updateAppointment ''zz'' [(''status'', JStr ''cancelled'')] 5 stale_appointments))
     = Inr (JArr [appointment_a1]) \<and>
   map_option JSON_parse (disk unreadable_appointments APPOINTMENTS) = Some (Inr (JArr [appointment_a1])) \<and>
   fst (updateAppointment ''zz'' [(''status'', JStr ''cancelled'')] 5 unreadable_appointments) = Inr () \<and>
   map_option JSON_parse
     (disk (snd (updateAppointment ''zz'' [(''status'', JStr ''cancelled'')] 5 unreadable_appointments))
        APPOINTMENTS) = Some (Inr (JArr []))"
  by code_simp

text \<open>
  C8, amended. Let the stored collection (the parsed text of the backend, the empty
  list for an absent key) be an array of elements none of which is \<^verbatim>\<open>null\<close> and
  none of which has the given id, let the cache hold no entry for the key or that same
  collection, and let the backend take the write. Then the \<^verbatim>\<open>map\<close> of
  \<open>updateAppointment\<close> returns every element as it is, the call raises no error,
  the stored collection is the same after the call, and so is the collection that
  \<open>getAppointments\<close> reads, at any time.
\<close>

theorem updateAppointment_unknown_id:
  assumes "read_collection APPOINTMENTS st = Inr (JArr xs)"
    and "cache_agrees APPOINTMENTS (JArr xs) st"
    and "\<forall>x\<in>set xs. x \<noteq> JNull \<and> get_prop x ''id'' \<noteq> Inr (Some (JStr appointmentId))"
    and "\<not> write_fails st APPOINTMENTS"
  shows "js_map (update_if_match appointmentId updates) (JArr xs) = Inr (JArr xs) \<and>
         fst (updateAppointment appointmentId updates now st) = Inr () \<and>
         read_collection APPOINTMENTS (snd (updateAppointment appointmentId updates now st))
           = Inr (JArr xs) \<and>
         fst (getAppointments t (snd (updateAppointment appointmentId updates now st))) = Inr (JArr xs)"
proof -
  have j: "json_value (JArr xs)"
    using assms(1) by (rule read_collection_json_value)
  have rd: "\<not> read_fails st APPOINTMENTS"
    using assms(1) by (auto simp: read_collection_def AsyncStorage_getItem_def split: if_splits)
  have "fst (getAppointments now st) = Inr (JArr xs)"
    using assms(1,2) by (rule getAppointments_reads_store)
  then obtain st1 where g: "getAppointments now st = (Inr (JArr xs), st1)"
    by (cases "getAppointments now st") auto
  have m: "js_map (update_if_match appointmentId updates) (JArr xs) = Inr (JArr xs)"
    using sequence_update_no_match [OF assms(3)] by (simp add: js_map_def)
  have st1: "st1 = snd (getItem APPOINTMENTS (Some (JArr [])) now st)"
    using g by (simp add: getAppointments_def)
  have w: "\<not> write_fails st1 APPOINTMENTS" and r: "\<not> read_fails st1 APPOINTMENTS"
    using assms(4) rd by (simp_all add: st1 getItem_faults)
  have u: "updateAppointment appointmentId updates now st = setItem APPOINTMENTS (JArr xs) None now st1"
    using g m by (simp add: updateAppointment_def saveAppointments_def)
  have ok: "fst (setItem APPOINTMENTS (JArr xs) None now st1) = Inr ()"
    using setItem_succeeds [OF json_value_serializable [OF j] w] .
  from m u ok read_collection_after_setItem [OF j w r] pinned_getItem [OF setItem_pins [OF ok]]
  show ?thesis
    by (simp add: getAppointments_def)
qed

theorem updateAppointment_unknown_id_witness:
  "read_collection APPOINTMENTS one_appointment = Inr (JArr [appointment_a1]) \<and>
   cache_agrees APPOINTMENTS (JArr [appointment_a1]) one_appointment \<and>
   appointment_a1 \<noteq> JNull \<and> get_prop appointment_a1 ''id'' \<noteq> Inr (Some (JStr ''zz'')) \<and>
   \<not> write_fails one_appointment APPOINTMENTS \<and>
   fst (updateAppointment ''zz'' [(''status'', JStr ''cancelled'')] 5 one_appointment) = Inr () \<and>
   read_collection APPOINTMENTS
     (snd (updateAppointment ''zz'' [(''status'', JStr ''cancelled'')] 5 one_appointment))
     = Inr (JArr [appointment_a1]) \<and>
   fst (getAppointments 6
          (snd (updateAppointment ''zz'' [(''status'', JStr ''cancelled'')] 5 one_appointment)))
     = Inr (JArr [appointment_a1])"
proof -
  have g: "read_collection APPOINTMENTS one_appointment = Inr (JArr [appointment_a1])"
    by code_simp
  have c: "cache_agrees APPOINTMENTS (JArr [appointment_a1]) one_appointment"
    by code_simp
  have n: "\<forall>x\<in>set [appointment_a1]. x \<noteq> JNull \<and> get_prop x ''id'' \<noteq> Inr (Some (JStr ''zz''))"
    by (simp add: appointment_a1_def)
  have w: "\<not> write_fails one_appointment APPOINTMENTS"
    by code_simp
  from g c n w
    updateAppointment_unknown_id [OF g c n w, where updates = "[(''status'', JStr ''cancelled'')]" and t = 6]
  show ?thesis by simp
qed

section \<open>Backup and restore (C9)\<close>

lemma snapshot_parts_serializable:
  assumes "JSON_stringify (snapshot stamp a n u s) = Inr t"
  shows "serializable a \<and> serializable n \<and> serializable u \<and> serializable s"
  using assms by (auto simp: snapshot_def serializable_def split: sum.splits)

text \<open>\<open>createBackup\<close> serializes the four values that \<open>getItem\<close> reads in the state it starts from.\<close>

lemma createBackup_eq:
  assumes "fst (getItem APPOINTMENTS (Some (JArr [])) now st) = Inr a"
    and "fst (getItem NOTIFICATIONS (Some (JArr [])) now st) = Inr n"
    and "fst (getItem REGISTERED_USERS (Some (JArr [])) now st) = Inr u"
    and "fst (getItem APP_SETTINGS (Some (JObj [])) now st) = Inr s"
  shows "fst (createBackup stamp now st) = JSON_stringify (snapshot stamp a n u s) \<and>
         write_fails (snd (createBackup stamp now st)) = write_fails st"
proof -
  obtain a' s1 where 1: "getItem APPOINTMENTS (Some (JArr [])) now st = (Inr a', s1)"
    using getItem_result by blast
  obtain n' s2 where 2: "getItem NOTIFICATIONS (Some (JArr [])) now s1 = (Inr n', s2)"
    using getItem_result by blast
  obtain u' s3 where 3: "getItem REGISTERED_USERS (Some (JArr [])) now s2 = (Inr u', s3)"
    using getItem_result by blast
  obtain s' s4 where 4: "getItem APP_SETTINGS (Some (JObj [])) now s3 = (Inr s', s4)"
    using getItem_result by blast
  have f1: "s1 = snd (getItem APPOINTMENTS (Some (JArr [])) now st)" using 1 by simp
  have f2: "s2 = snd (getItem NOTIFICATIONS (Some (JArr [])) now s1)" using 2 by simp
  have f3: "s3 = snd (getItem REGISTERED_USERS (Some (JArr [])) now s2)" using 3 by simp
  have f4: "s4 = snd (getItem APP_SETTINGS (Some (JObj [])) now s3)" using 4 by simp
  have a: "a' = a" using 1 assms(1) by simp
  have "same_at NOTIFICATIONS st s1"
    unfolding f1 by (rule getItem_frame) (simp add: keys_distinct)
  then have n: "n' = n"
    using 2 assms(2) getItem_same_at [of NOTIFICATIONS st s1] by simp
  have "same_at REGISTERED_USERS st s1"
    unfolding f1 by (rule getItem_frame) (simp add: keys_distinct)
  moreover have "same_at REGISTERED_USERS s1 s2"
    unfolding f2 by (rule getItem_frame) (simp add: keys_distinct)
  ultimately have "same_at REGISTERED_USERS st s2" by (rule same_at_trans)
  then have u: "u' = u"
    using 3 assms(3) getItem_same_at [of REGISTERED_USERS st s2] by simp
  have "same_at APP_SETTINGS st s1"
    unfolding f1 by (rule getItem_frame) (simp add: keys_distinct)
  moreover have "same_at APP_SETTINGS s1 s2"
    unfolding f2 by (rule getItem_frame) (simp add: keys_distinct)
  moreover have "same_at APP_SETTINGS s2 s3"
    unfolding f3 by (rule getItem_frame) (simp add: keys_distinct)
  ultimately have "same_at APP_SETTINGS st s3" by (blast intro: same_at_trans)
  then have s: "s' = s"
    using 4 assms(4) getItem_same_at [of APP_SETTINGS st s3] by simp
  have c: "createBackup stamp now st = (JSON_stringify (snapshot stamp a n u s), s4)"
    using 1 2 3 4 a n u s by (simp add: createBackup_def await_def)
  have "write_fails s4 = write_fails st"
    unfolding f4 f3 f2 f1 by (simp add: getItem_faults)
  with c show ?thesis by simp
qed

lemma restore_key_pins:
  assumes "get_prop dat field = Inr (Some v)" and "truthy v" and "serializable v"
    and "\<not> write_fails st key"
  shows "restore_key key dat field dflt now st = (Inr (), snd (setItem key v None now st)) \<and>
         pinned key v (snd (setItem key v None now st))"
proof -
  have ok: "fst (setItem key v None now st) = Inr ()"
    using setItem_succeeds [OF assms(3,4)] .
  then have "setItem key v None now st = (Inr (), snd (setItem key v None now st))"
    by (cases "setItem key v None now st") simp
  then show ?thesis
    using assms(1,2) setItem_pins [OF ok] by (simp add: restore_key_def)
qed

text \<open>\<open>restoreFromBackup\<close> of a snapshot with four truthy parts writes and caches each part.\<close>

lemma restoreFromBackup_pins:
  assumes "JSON_parse blob = Inr (snapshot stamp a n u s)"
    and "truthy a" "truthy n" "truthy u" "truthy s"
    and "serializable a" "serializable n" "serializable u" "serializable s"
    and "\<not> write_fails st APPOINTMENTS" "\<not> write_fails st NOTIFICATIONS"
    and "\<not> write_fails st REGISTERED_USERS" "\<not> write_fails st APP_SETTINGS"
  shows "fst (restoreFromBackup blob now st) = Inr () \<and>
         pinned APPOINTMENTS a (snd (restoreFromBackup blob now st)) \<and>
         pinned NOTIFICATIONS n (snd (restoreFromBackup blob now st)) \<and>
         pinned REGISTERED_USERS u (snd (restoreFromBackup blob now st)) \<and>
         pinned APP_SETTINGS s (snd (restoreFromBackup blob now st))"
proof -
  define dat where "dat = JObj [(''appointments'', a), (''notifications'', n),
                            (''registeredUsers'', u), (''settings'', s)]"
  define s1 where "s1 = snd (setItem APPOINTMENTS a None now st)"
  define s2 where "s2 = snd (setItem NOTIFICATIONS n None now s1)"
  define s3 where "s3 = snd (setItem REGISTERED_USERS u None now s2)"
  define s4 where "s4 = snd (setItem APP_SETTINGS s None now s3)"
  have d: "get_prop (snapshot stamp a n u s) ''data'' = Inr (Some dat)" "truthy dat"
    by (simp_all add: snapshot_def dat_def)
  have p: "get_prop dat ''appointments'' = Inr (Some a)" "get_prop dat ''notifications'' = Inr (Some n)"
    "get_prop dat ''registeredUsers'' = Inr (Some u)" "get_prop dat ''settings'' = Inr (Some s)"
    by (simp_all add: dat_def)
  have w1: "write_fails s1 = write_fails st" by (simp add: s1_def setItem_faults)
  have w2: "write_fails s2 = write_fails st" by (simp add: s2_def setItem_faults w1)
  have w3: "write_fails s3 = write_fails st" by (simp add: s3_def setItem_faults w2)
  have r1: "restore_key APPOINTMENTS dat ''appointments'' (JArr []) now st = (Inr (), s1)"
    "pinned APPOINTMENTS a s1"
    using restore_key_pins [OF p(1) assms(2) assms(6) assms(10)] by (simp_all add: s1_def)
  have r2: "restore_key NOTIFICATIONS dat ''notifications'' (JArr []) now s1 = (Inr (), s2)"
    "pinned NOTIFICATIONS n s2"
    using restore_key_pins [OF p(2) assms(3) assms(7), of s1 NOTIFICATIONS] assms(11) w1
    by (simp_all add: s2_def)
  have r3: "restore_key REGISTERED_USERS dat ''registeredUsers'' (JArr []) now s2 = (Inr (), s3)"
    "pinned REGISTERED_USERS u s3"
    using restore_key_pins [OF p(3) assms(4) assms(8), of s2 REGISTERED_USERS] assms(12) w2
    by (simp_all add: s3_def)
  have r4: "restore_key APP_SETTINGS dat ''settings'' (JObj []) now s3 = (Inr (), s4)"
    "pinned APP_SETTINGS s s4"
    using restore_key_pins [OF p(4) assms(5) assms(9), of s3 APP_SETTINGS] assms(13) w3
    by (simp_all add: s4_def)
  have r: "restoreFromBackup blob now st = (Inr (), s4)"
    using assms(1) d r1(1) r2(1) r3(1) r4(1) by (simp add: restoreFromBackup_def await_def)
  have "pinned APPOINTMENTS a s4"
    unfolding s4_def s3_def s2_def
    by (intro setItem_keeps_pinned r1(2)) (simp_all add: keys_distinct)
  moreover have "pinned NOTIFICATIONS n s4"
    unfolding s4_def s3_def
    by (intro setItem_keeps_pinned r2(2)) (simp_all add: keys_distinct)
  moreover have "pinned REGISTERED_USERS u s4"
    unfolding s4_def
    by (intro setItem_keeps_pinned r3(2)) (simp_all add: keys_distinct)
  ultimately show ?thesis using r r4(2) by simp
qed

text \<open>
  C9, as stated, fails. \<open>restoreFromBackup\<close> writes
  \<^verbatim>\<open>backup.data.settings || {}\<close>: in a state where the settings key holds
  \<^verbatim>\<open>null\<close>, \<open>getItem\<close> reads \<^verbatim>\<open>null\<close> before the round trip and
  the empty object after it. And \<open>createBackup\<close> reads an absent key as
  \<^verbatim>\<open>[]\<close> or \<^verbatim>\<open>{}\<close>, which the restore then stores: on the empty
  storage, \<open>getAppSettings\<close> reads the default settings before the round trip and the
  empty object after it, and \<open>getItem\<close> without default reads \<^verbatim>\<open>null\<close> for the
  appointments before and the empty list after.
\<close>

theorem backup_restore_counterexample:
  "fst (getItem APP_SETTINGS (Some (JObj [])) 1 null_settings) = Inr JNull \<and>
   fst (backup_then_restore ''2025-08-21T14:30:00.000Z'' 1 null_settings) = Inr () \<and>
   fst (getItem APP_SETTINGS (Some (JObj [])) 1
          (snd (backup_then_restore ''2025-08-21T14:30:00.000Z'' 1 null_settings))) = Inr (JObj []) \<and>
   fst (getAppSettings 1 empty_storage) = Inr default_settings \<and>
   fst (getItem APPOINTMENTS None 1 empty_storage) = Inr JNull \<and>
   fst (backup_then_restore ''2025-08-21T14:30:00.000Z'' 1 empty_storage) = Inr () \<and>
   fst (getAppSettings 1
          (snd (backup_then_restore ''2025-08-21T14:30:00.000Z'' 1 empty_storage))) = Inr (JObj []) \<and>
   fst (getItem APPOINTMENTS None 1
          (snd (backup_then_restore ''2025-08-21T14:30:00.000Z'' 1 empty_storage))) = Inr (JArr [])"
  by code_simp

text \<open>
  C9, amended. Let \<open>a\<close>, \<open>n\<close>, \<open>u\<close>, \<open>s\<close> be the values that \<open>getItem\<close> reads
  for the four covered keys, with the defaults of \<open>createBackup\<close>, in the state before
  the backup. If the four values are truthy (as every array and every object is) and
  JSON values, and the backend takes the writes to the four keys, then the round trip succeeds and a \<open>getItem\<close> of each covered key after it,
  at any time and with any default, returns the value read before.
\<close>

theorem backup_restore_roundtrip:
  assumes "fst (getItem APPOINTMENTS (Some (JArr [])) now st) = Inr a"
    and "fst (getItem NOTIFICATIONS (Some (JArr [])) now st) = Inr n"
    and "fst (getItem REGISTERED_USERS (Some (JArr [])) now st) = Inr u"
    and "fst (getItem APP_SETTINGS (Some (JObj [])) now st) = Inr s"
    and "truthy a" and "truthy n" and "truthy u" and "truthy s"
    and "json_value a" and "json_value n" and "json_value u" and "json_value s"
    and "\<not> write_fails st APPOINTMENTS" and "\<not> write_fails st NOTIFICATIONS"
    and "\<not> write_fails st REGISTERED_USERS" and "\<not> write_fails st APP_SETTINGS"
  shows "fst (backup_then_restore stamp now st) = Inr () \<and>
         fst (getItem APPOINTMENTS d t (snd (backup_then_restore stamp now st))) = Inr a \<and>
         fst (getItem NOTIFICATIONS d t (snd (backup_then_restore stamp now st))) = Inr n \<and>
         fst (getItem REGISTERED_USERS d t (snd (backup_then_restore stamp now st))) = Inr u \<and>
         fst (getItem APP_SETTINGS d t (snd (backup_then_restore stamp now st))) = Inr s"
proof -
  have "json_value (snapshot stamp a n u s)"
    using assms(9-12) by (simp add: snapshot_def)
  then have "reads_back (snapshot stamp a n u s)"
    by (rule json_value_reads_back)
  then obtain blob where b: "JSON_stringify (snapshot stamp a n u s) = Inr blob"
    and pb: "JSON_parse blob = Inr (snapshot stamp a n u s)"
    by (auto simp: reads_back_def split: sum.splits)
  define s0 where "s0 = snd (createBackup stamp now st)"
  have c: "createBackup stamp now st = (Inr blob, s0)" and w: "write_fails s0 = write_fails st"
    using createBackup_eq [OF assms(1-4), of stamp] b
    by (simp_all add: s0_def prod_eq_iff)
  have ser: "serializable a" "serializable n" "serializable u" "serializable s"
    using snapshot_parts_serializable [OF b] by simp_all
  have e: "backup_then_restore stamp now st = restoreFromBackup blob now s0"
    using c by (simp add: backup_then_restore_def await_def)
  have "fst (restoreFromBackup blob now s0) = Inr () \<and>
         pinned APPOINTMENTS a (snd (restoreFromBackup blob now s0)) \<and>
         pinned NOTIFICATIONS n (snd (restoreFromBackup blob now s0)) \<and>
         pinned REGISTERED_USERS u (snd (restoreFromBackup blob now s0)) \<and>
         pinned APP_SETTINGS s (snd (restoreFromBackup blob now s0))"
    using assms(13-16) w
    by (intro restoreFromBackup_pins [OF pb assms(5-8) ser]) simp_all
  then show ?thesis
    unfolding e by (simp add: pinned_getItem)
qed

theorem backup_restore_roundtrip_witness:
  "fst (getItem APPOINTMENTS (Some (JArr [])) 1 one_appointment) = Inr (JArr [appointment_a1]) \<and>
   fst (getItem NOTIFICATIONS (Some (JArr [])) 1 one_appointment) = Inr (JArr []) \<and>
   fst (getItem REGISTERED_USERS (Some (JArr [])) 1 one_appointment) = Inr (JArr []) \<and>
   fst (getItem APP_SETTINGS (Some (JObj [])) 1 one_appointment) = Inr (JObj []) \<and>
   truthy (JArr [appointment_a1]) \<and> truthy (JArr []) \<and> truthy (JObj []) \<and>
   json_value (JArr [appointment_a1]) \<and> json_value (JArr []) \<and> json_value (JObj []) \<and>
   \<not> write_fails one_appointment APPOINTMENTS \<and> \<not> write_fails one_appointment NOTIFICATIONS \<and>
   \<not> write_fails one_appointment REGISTERED_USERS \<and> \<not> write_fails one_appointment APP_SETTINGS \<and>
   fst (backup_then_restore ''2025-08-21T14:30:00.000Z'' 1 one_appointment) = Inr () \<and>
   fst (getItem APPOINTMENTS None 2
          (snd (backup_then_restore ''2025-08-21T14:30:00.000Z'' 1 one_appointment)))
     = Inr (JArr [appointment_a1]) \<and>
   fst (getItem APP_SETTINGS None 2
          (snd (backup_then_restore ''2025-08-21T14:30:00.000Z'' 1 one_appointment)))
     = Inr (JObj [])"
proof -
  have g: "fst (getItem APPOINTMENTS (Some (JArr [])) 1 one_appointment) = Inr (JArr [appointment_a1])"
    "fst (getItem NOTIFICATIONS (Some (JArr [])) 1 one_appointment) = Inr (JArr [])"
    "fst (getItem REGISTERED_USERS (Some (JArr [])) 1 one_appointment) = Inr (JArr [])"
    "fst (getItem APP_SETTINGS (Some (JObj [])) 1 one_appointment) = Inr (JObj [])"
    by code_simp+
  have t: "truthy (JArr [appointment_a1])" "truthy (JArr [])" "truthy (JObj [])"
    by simp_all
  have j: "json_value (JArr [appointment_a1])" "json_value (JArr [])" "json_value (JObj [])"
    by (simp_all add: appointment_a1_def)
  have w: "\<not> write_fails one_appointment APPOINTMENTS" "\<not> write_fails one_appointment NOTIFICATIONS"
    "\<not> write_fails one_appointment REGISTERED_USERS" "\<not> write_fails one_appointment APP_SETTINGS"
    by code_simp+
  from g t j w
    backup_restore_roundtrip [OF g t(1) t(2) t(2) t(3) j(1) j(2) j(2) j(3) w,
      where d = None and t = 2 and stamp = "''2025-08-21T14:30:00.000Z''"]
  show ?thesis by simp
qed

section \<open>Filters that do not throw\<close>

lemma filter_throwing_total:
  assumes "\<forall>x\<in>set xs. \<exists>b. p x = Inr b"
  shows "filter_throwing p xs = Inr (filter (\<lambda>x. p x = Inr True) xs)"
  using assms by (induction xs) auto

lemma prop_is_non_null:
  "v \<noteq> JNull \<Longrightarrow> prop_is k s v = Inr (get_prop v k = Inr (Some (JStr s)))"
  by (cases v) (auto simp: prop_is_def)

lemma js_filter_prop_is:
  assumes "\<forall>x\<in>set xs. x \<noteq> JNull"
  shows "js_filter (prop_is k s) (JArr xs) = Inr (filter (\<lambda>x. get_prop x k = Inr (Some (JStr s))) xs)"
proof -
  have "filter_throwing (prop_is k s) xs = Inr (filter (\<lambda>x. prop_is k s x = Inr True) xs)"
    using assms by (intro filter_throwing_total) (auto simp: prop_is_non_null)
  moreover have "filter (\<lambda>x. prop_is k s x = Inr True) xs
      = filter (\<lambda>x. get_prop x k = Inr (Some (JStr s))) xs"
    using assms by (intro filter_cong) (auto simp: prop_is_non_null)
  ultimately show ?thesis by (simp add: js_filter_def)
qed

section \<open>Notifications of a user (C5)\<close>

lemma insert_sorted_insort:
  assumes "\<forall>y\<in>set (x # ys). createdAt_ms getTime y \<noteq> None"
  shows "insert_sorted (newest_first getTime) x ys
           = insort_key (\<lambda>n. - the (createdAt_ms getTime n)) x ys"
  using assms by (induction ys) (auto simp: newest_first_def)

lemma js_sort_sort_key:
  assumes "\<forall>y\<in>set xs. createdAt_ms getTime y \<noteq> None"
  shows "js_sort (newest_first getTime) xs = sort_key (\<lambda>n. - the (createdAt_ms getTime n)) xs"
  using assms
proof (induction xs)
  case Nil
  then show ?case by (simp add: js_sort_def)
next
  case (Cons x xs)
  then have "js_sort (newest_first getTime) xs = sort_key (\<lambda>n. - the (createdAt_ms getTime n)) xs"
    by simp
  moreover have "\<forall>y\<in>set (x # sort_key (\<lambda>n. - the (createdAt_ms getTime n)) xs).
      createdAt_ms getTime y \<noteq> None"
    using Cons.prems by simp
  ultimately show ?case
    using insert_sorted_insort [of x "sort_key (\<lambda>n. - the (createdAt_ms getTime n)) xs" getTime]
    by (simp add: js_sort_def sort_key_def)
qed

lemma sorted_newest_first:
  assumes "\<forall>y\<in>set xs. createdAt_ms getTime y \<noteq> None"
    and "sorted (map (\<lambda>n. - the (createdAt_ms getTime n)) xs)"
  shows "sorted_wrt (newer_or_same getTime) xs"
  using assms by (induction xs) (fastforce simp: newer_or_same_def)+

text \<open>
  C5. Let the stored notifications be an array of elements none of which is
  \<^verbatim>\<open>null\<close>, each with a valid \<^verbatim>\<open>createdAt\<close>. Then \<open>getNotifications\<close>
  returns exactly the notifications of the user (as a multiset), each before all older
  ones, and the notifications of one timestamp in the order in which they are stored.
\<close>

theorem getNotifications_filtered_sorted_stable:
  assumes "read_collection NOTIFICATIONS st = Inr (JArr ns)"
    and "\<forall>n\<in>set ns. n \<noteq> JNull"
    and "\<forall>n\<in>set ns. createdAt_ms getTime n \<noteq> None"
  shows "mset (getNotifications getTime userId st)
           = mset (filter (\<lambda>n. get_prop n ''userId'' = Inr (Some (JStr userId))) ns) \<and>
         sorted_wrt (newer_or_same getTime) (getNotifications getTime userId st) \<and>
         (\<forall>t. filter (\<lambda>n. createdAt_ms getTime n = Some t) (getNotifications getTime userId st)
              = filter (\<lambda>n. createdAt_ms getTime n = Some t)
                  (filter (\<lambda>n. get_prop n ''userId'' = Inr (Some (JStr userId))) ns))"
proof -
  define mine where "mine = filter (\<lambda>n. get_prop n ''userId'' = Inr (Some (JStr userId))) ns"
  define f where "f = (\<lambda>n. - the (createdAt_ms getTime n))"
  have v: "\<forall>y\<in>set mine. createdAt_ms getTime y \<noteq> None"
    using assms(3) by (simp add: mine_def)
  have g: "getNotifications getTime userId st = sort_key f mine"
    using assms(1) js_filter_prop_is [OF assms(2), of "''userId''" userId] js_sort_sort_key [OF v]
    by (simp add: getNotifications_def getNotifications_try_def mine_def f_def)
  have 1: "mset (sort_key f mine) = mset mine" by simp
  have "sorted (map f (sort_key f mine))" by (rule sorted_sort_key)
  then have 2: "sorted_wrt (newer_or_same getTime) (sort_key f mine)"
    using v by (intro sorted_newest_first) (simp_all add: f_def)
  have 3: "filter (\<lambda>n. createdAt_ms getTime n = Some t) (sort_key f mine)
      = filter (\<lambda>n. createdAt_ms getTime n = Some t) mine" for t
  proof -
    have "filter (\<lambda>n. createdAt_ms getTime n = Some t) (sort_key f mine)
        = filter (\<lambda>n. createdAt_ms getTime n = Some t) (filter (\<lambda>n. f n = - t) (sort_key f mine))"
      by (auto simp: f_def intro: filter_cong)
    also have "\<dots> = filter (\<lambda>n. createdAt_ms getTime n = Some t) (filter (\<lambda>n. f n = - t) mine)"
      by (simp only: sort_key_stable)
    also have "\<dots> = filter (\<lambda>n. createdAt_ms getTime n = Some t) mine"
      by (auto simp: f_def intro: filter_cong)
    finally show ?thesis .
  qed
  from 1 2 3 show ?thesis
    unfolding g mine_def [symmetric] by simp
qed

theorem getNotifications_filtered_sorted_stable_witness:
  "read_collection NOTIFICATIONS four_notifications
     = Inr (JArr [notification ''n1'' ''u1'' 100, notification ''n2'' ''u2'' 150,
                  notification ''n3'' ''u1'' 200, notification ''n4'' ''u1'' 100]) \<and>
   list_all (\<lambda>n. n \<noteq> JNull \<and> createdAt_ms epoch_ms n \<noteq> None)
     [notification ''n1'' ''u1'' 100, notification ''n2'' ''u2'' 150,
      notification ''n3'' ''u1'' 200, notification ''n4'' ''u1'' 100] \<and>
   getNotifications epoch_ms ''u1'' four_notifications
     = [notification ''n3'' ''u1'' 200, notification ''n1'' ''u1'' 100, notification ''n4'' ''u1'' 100] \<and>
   sorted_wrt (newer_or_same epoch_ms) (getNotifications epoch_ms ''u1'' four_notifications) \<and>
   filter (\<lambda>n. createdAt_ms epoch_ms n = Some 100) (getNotifications epoch_ms ''u1'' four_notifications)
     = filter (\<lambda>n. createdAt_ms epoch_ms n = Some 100)
         (filter (\<lambda>n. get_prop n ''userId'' = Inr (Some (JStr ''u1'')))
            [notification ''n1'' ''u1'' 100, notification ''n2'' ''u2'' 150,
             notification ''n3'' ''u1'' 200, notification ''n4'' ''u1'' 100])"
proof -
  have r: "read_collection NOTIFICATIONS four_notifications
     = Inr (JArr [notification ''n1'' ''u1'' 100, notification ''n2'' ''u2'' 150,
                  notification ''n3'' ''u1'' 200, notification ''n4'' ''u1'' 100])"
    by code_simp
  have n: "\<forall>n\<in>set [notification ''n1'' ''u1'' 100, notification ''n2'' ''u2'' 150,
              notification ''n3'' ''u1'' 200, notification ''n4'' ''u1'' 100]. n \<noteq> JNull"
    by (simp add: notification_def)
  have c: "\<forall>n\<in>set [notification ''n1'' ''u1'' 100, notification ''n2'' ''u2'' 150,
              notification ''n3'' ''u1'' 200, notification ''n4'' ''u1'' 100].
             createdAt_ms epoch_ms n \<noteq> None"
    by (simp add: notification_def createdAt_ms_def epoch_ms_def)
  have v: "getNotifications epoch_ms ''u1'' four_notifications
     = [notification ''n3'' ''u1'' 200, notification ''n1'' ''u1'' 100, notification ''n4'' ''u1'' 100]"
    by code_simp
  from r n c v getNotifications_filtered_sorted_stable [OF r n c, of "''u1''"]
  show ?thesis by (auto simp: list_all_iff)
qed

section \<open>Statistics (C6, C7)\<close>

lemma aggregate_empty: "aggregate (JArr []) = Inr no_appointments"
  by (simp add: aggregate_def count_status_def js_filter_def elements_def month_histogram_def
      percentage_def no_appointments_def)

lemma count_status_all:
  assumes "\<forall>a\<in>set xs. get_prop a ''status'' = Inr (Some (JStr s))"
  shows "count_status s' (JArr xs) = Inr (if s' = s then length xs else 0)"
proof -
  have n: "\<forall>a\<in>set xs. a \<noteq> JNull" using assms by auto
  have "filter (\<lambda>x. get_prop x ''status'' = Inr (Some (JStr s'))) xs = (if s' = s then xs else [])"
    using assms by (auto simp: filter_empty_conv intro: filter_True)
  then show ?thesis
    using js_filter_prop_is [OF n, of "''status''" s'] by (simp add: count_status_def)
qed

lemma percentage_all: "0 < n \<Longrightarrow> percentage n n = 100"
  by (simp add: percentage_def)

lemma percentage_none: "percentage 0 n = 0"
  by (simp add: percentage_def)

text \<open>
  C6. When both reads of \<open>getGeneralStatistics\<close> succeed and the appointments are an
  array: for the empty array every count and every percentage is 0, and for a non-empty
  array of appointments that all have the status \<^verbatim>\<open>confirmed\<close> the call returns
  statistics whose confirmed percentage is 100. The percentages are guarded by
  \<^verbatim>\<open>totalAppointments > 0\<close>, so nothing is divided by zero.
\<close>

theorem statistics_empty_and_all_confirmed:
  assumes "read_collection APPOINTMENTS st = Inr (JArr xs)"
    and "read_collection REGISTERED_USERS st = Inr us"
  shows "(xs = [] \<longrightarrow> getGeneralStatistics st = Inr no_appointments) \<and>
         (xs \<noteq> [] \<and> (\<forall>a\<in>set xs. get_prop a ''status'' = Inr (Some (JStr ''confirmed''))) \<longrightarrow>
            (\<exists>s. getGeneralStatistics st = Inr s \<and> pct_confirmed s = 100 \<and>
                 pct_pending s = 0 \<and> pct_cancelled s = 0 \<and>
                 confirmedAppointments s = length xs \<and> totalAppointments s = length xs))"
proof (intro conjI impI)
  assume "xs = []"
  then show "getGeneralStatistics st = Inr no_appointments"
    using assms by (simp add: getGeneralStatistics_def aggregate_empty)
next
  assume a: "xs \<noteq> [] \<and> (\<forall>a\<in>set xs. get_prop a ''status'' = Inr (Some (JStr ''confirmed'')))"
  then have c: "count_status ''confirmed'' (JArr xs) = Inr (length xs)"
    "count_status ''pending'' (JArr xs) = Inr 0" "count_status ''cancelled'' (JArr xs) = Inr 0"
    using count_status_all [of xs "''confirmed''"] by simp_all
  from a have "0 < length xs" by simp
  then show "\<exists>s. getGeneralStatistics st = Inr s \<and> pct_confirmed s = 100 \<and>
                 pct_pending s = 0 \<and> pct_cancelled s = 0 \<and>
                 confirmedAppointments s = length xs \<and> totalAppointments s = length xs"
    using assms c
    by (simp add: getGeneralStatistics_def aggregate_def elements_def percentage_all
          percentage_none Let_def)
qed

theorem statistics_empty_and_all_confirmed_witness:
  "read_collection APPOINTMENTS empty_storage = Inr (JArr []) \<and>
   read_collection REGISTERED_USERS empty_storage = Inr (JArr []) \<and>
   getGeneralStatistics empty_storage = Inr no_appointments \<and>
   read_collection APPOINTMENTS one_appointment = Inr (JArr [appointment_a1]) \<and>
   read_collection REGISTERED_USERS one_appointment = Inr (JArr []) \<and>
   [appointment_a1] \<noteq> [] \<and>
   get_prop appointment_a1 ''status'' = Inr (Some (JStr ''confirmed'')) \<and>
   (\<exists>s. getGeneralStatistics one_appointment = Inr s \<and> pct_confirmed s = 100 \<and>
        confirmedAppointments s = 1)"
proof -
  have e: "read_collection APPOINTMENTS empty_storage = Inr (JArr [])"
    "read_collection REGISTERED_USERS empty_storage = Inr (JArr [])"
    by code_simp+
  have o: "read_collection APPOINTMENTS one_appointment = Inr (JArr [appointment_a1])"
    "read_collection REGISTERED_USERS one_appointment = Inr (JArr [])"
    by code_simp+
  have c: "\<forall>a\<in>set [appointment_a1]. get_prop a ''status'' = Inr (Some (JStr ''confirmed''))"
    by (simp add: appointment_a1_def)
  from e o c
    statistics_empty_and_all_confirmed [OF e]
    statistics_empty_and_all_confirmed [OF o]
  show ?thesis by auto
qed

lemma split_on_no_sep: "c \<notin> set s \<Longrightarrow> split_on c s = [s]"
  by (induction s) auto

lemma split_on_sep: "c \<notin> set a \<Longrightarrow> split_on c (a @ c # b) = a # split_on c b"
  by (induction a) auto

text \<open>A date of the form DD/MM/YYYY is counted under MM/YYYY.\<close>

lemma monthKey_well_formed:
  assumes "CHR ''/'' \<notin> set dd" "CHR ''/'' \<notin> set mm" "CHR ''/'' \<notin> set yyyy"
  shows "monthKey (dd @ ''/'' @ mm @ ''/'' @ yyyy) = mm @ ''/'' @ yyyy"
  using assms by (simp add: monthKey_def part_def split_on_sep split_on_no_sep)

text \<open>Every string date is counted; only a date that is no string is skipped with a warning.\<close>

lemma month_step_string:
  "get_prop a ''date'' = Inr (Some (JStr d)) \<Longrightarrow>
   month_step a (m, w) = (bump (monthKey d) m, w)"
  by (simp add: month_step_def)

lemma month_step_no_string:
  "get_prop a ''date'' = Inr v \<Longrightarrow> \<forall>d. v \<noteq> Some (JStr d) \<Longrightarrow>
   month_step a (m, w) = (m, w @ [v])"
  by (auto simp: month_step_def split: option.splits jsval.splits)

text \<open>
  C7 at its failing input. An appointment whose date is the string
  \<^verbatim>\<open>2025-08-21\<close> is not skipped: \<^verbatim>\<open>split('/')\<close> gives one part, the month
  and the year are \<^verbatim>\<open>undefined\<close>, and the appointment is counted under the key
  \<^verbatim>\<open>undefined/undefined\<close>, with no warning. Next to a well-formed date it adds a
  second entry to the histogram.
\<close>

theorem malformed_date_is_counted:
  "map_sum id appointmentsByMonth (aggregate (JArr [appointment_iso]))
     = Inr [(''undefined/undefined'', 1)] \<and>
   warned_dates (JArr [appointment_iso]) = [] \<and>
   map_sum id appointmentsByMonth (aggregate (JArr [appointment_a1, appointment_iso, appointment_iso]))
     = Inr [(''08/2025'', 1), (''undefined/undefined'', 2)]"
  by code_simp

end
